theory Spec2Isabelle
  imports Complex_Main "HOL-Library.AList" "HOL-Library.Multiset" "HOL-Library.Log_Nat"
begin

section \<open>JavaScript values\<close>

text \<open>
  A JavaScript string is a sequence of UTF-16 code units; a code unit is modelled by its
  number, an integer. \<open>js\<close> turns an ASCII literal into such a string. A JavaScript number is
  modelled by the rational that it denotes.
\<close>

type_synonym jschar = int
type_synonym jsstring = "jschar list"
type_synonym jsnumber = rat

definition js :: "string \<Rightarrow> jsstring" where
  "js s = map of_char s"

text \<open>The class \<open>\s\<close> of a regular expression, which is also what \<open>trim\<close> strips.\<close>

definition isWhiteSpace :: "jschar \<Rightarrow> bool" where
  "isWhiteSpace c \<longleftrightarrow>
     c \<in> set [9, 10, 11, 12, 13, 32, 160, 5760, 8232, 8233, 8239, 8287, 12288, 65279]
     \<or> (8192 \<le> c \<and> c \<le> 8202)"

definition isDigit :: "jschar \<Rightarrow> bool" where
  "isDigit c \<longleftrightarrow> 48 \<le> c \<and> c \<le> 57"

text \<open>
  The code points of a string, as its iterator gives them: a high surrogate followed by a
  low surrogate is one code point above \<open>0xFFFF\<close>, and any other code unit is a code point
  by itself.
\<close>

fun codePoints :: "jsstring \<Rightarrow> int list" where
  "codePoints [] = []"
| "codePoints [c] = [c]"
| "codePoints (h # l # rest) =
     (if 55296 \<le> h \<and> h \<le> 56319 \<and> 56320 \<le> l \<and> l \<le> 57343
      then (65536 + (h - 55296) * 1024 + (l - 56320)) # codePoints rest
      else h # codePoints (l # rest))"

definition startsWith :: "jsstring \<Rightarrow> jsstring \<Rightarrow> bool" where
  "startsWith s p \<longleftrightarrow> take (length p) s = p"

text \<open>\<open>s.includes(p)\<close>: \<open>p\<close> occurs in \<open>s\<close> as a contiguous run.\<close>

fun includes_str :: "jsstring \<Rightarrow> jsstring \<Rightarrow> bool" where
  "includes_str [] p = (p = [])"
| "includes_str (c # cs) p = (startsWith (c # cs) p \<or> includes_str cs p)"

definition dropWhileEnd :: "('a \<Rightarrow> bool) \<Rightarrow> 'a list \<Rightarrow> 'a list" where
  "dropWhileEnd P xs = rev (dropWhile P (rev xs))"

definition trim :: "jsstring \<Rightarrow> jsstring" where
  "trim s = dropWhileEnd isWhiteSpace (dropWhile isWhiteSpace s)"

text \<open>\<open>s.split('\n')\<close>: always at least one piece.\<close>

fun splitLines :: "jsstring \<Rightarrow> jsstring list" where
  "splitLines [] = [[]]"
| "splitLines (c # cs) =
     (if c = 10 then [] # splitLines cs
      else (case splitLines cs of l # ls \<Rightarrow> (c # l) # ls | [] \<Rightarrow> [[c]]))"

text \<open>\<open>parseInt(ds, 10)\<close> on a run of decimal digits.\<close>

definition parseInt :: "jsstring \<Rightarrow> int" where
  "parseInt ds = foldl (\<lambda>n c. 10 * n + (c - 48)) 0 ds"

text \<open>
  \<open>Array.prototype.sort\<close> with a comparator: the sort is stable, so for a comparator
  that orders by a key it is the stable insertion of each element before the first
  element that it does not follow.
\<close>

fun insort_cmp :: "('a \<Rightarrow> 'a \<Rightarrow> jsnumber) \<Rightarrow> 'a \<Rightarrow> 'a list \<Rightarrow> 'a list" where
  "insort_cmp cmp x [] = [x]"
| "insort_cmp cmp x (y # ys) =
     (if cmp x y \<le> 0 then x # y # ys else y # insort_cmp cmp x ys)"

definition js_sort :: "('a \<Rightarrow> 'a \<Rightarrow> jsnumber) \<Rightarrow> 'a list \<Rightarrow> 'a list" where
  "js_sort cmp xs = foldr (insort_cmp cmp) xs []"

section \<open>Binary64 arithmetic\<close>

text \<open>
  The program computes with IEEE 754 doubles. A double is modelled by the rational it
  denotes, and an operation by the exact operation followed by \<open>round64\<close>: rounding to
  the nearest number with a significand of 53 bits, ties to the even significand. The
  range of the exponent is not modelled; the quotients, products, sums and differences
  rounded here are of counts, scores between 0 and 1 and times of at most a few
  thousand seconds.
\<close>

text \<open>For a positive \<open>x\<close>, the exponent \<open>e\<close> with \<open>2\<^sup>e \<le> x < 2\<^sup>e\<^sup>+\<^sup>1\<close>.\<close>

definition ilog2 :: "rat \<Rightarrow> int" where
  "ilog2 x =
     (let k = bitlen (fst (quotient_of x)) - bitlen (snd (quotient_of x))
      in if 2 powi k \<le> x then k else k - 1)"

definition roundHalfEven :: "rat \<Rightarrow> int" where
  "roundHalfEven q =
     (let f = \<lfloor>q\<rfloor>; r = q - of_int f
      in if r < 1 / 2 then f else if 1 / 2 < r then f + 1 else if even f then f else f + 1)"

definition round64 :: "rat \<Rightarrow> rat" where
  "round64 x =
     (if x = 0 then 0
      else (let s = 2 powi (ilog2 \<bar>x\<bar> - 52)
            in sgn x * of_int (roundHalfEven (\<bar>x\<bar> / s)) * s))"

definition fadd :: "jsnumber \<Rightarrow> jsnumber \<Rightarrow> jsnumber" where
  "fadd a b = round64 (a + b)"

definition fsub :: "jsnumber \<Rightarrow> jsnumber \<Rightarrow> jsnumber" where
  "fsub a b = round64 (a - b)"

definition fmul :: "jsnumber \<Rightarrow> jsnumber \<Rightarrow> jsnumber" where
  "fmul a b = round64 (a * b)"

definition fdiv :: "jsnumber \<Rightarrow> jsnumber \<Rightarrow> jsnumber" where
  "fdiv a b = round64 (a / b)"

section \<open>Similarity matcher and source ranking (js/api/utils.ts)\<close>

text \<open>The character class of \<open>normalize\<close>: white space, hyphen, underscore, round and
  square brackets, and the two full-width round brackets.\<close>

definition stripped :: "jschar \<Rightarrow> bool" where
  "stripped c \<longleftrightarrow> isWhiteSpace c \<or> c \<in> set [45, 95, 40, 41, 91, 93, 65288, 65289]"

text \<open>
  \<open>String.prototype.toLowerCase\<close> follows the case tables of Unicode, which are not part
  of the sources: the case mapping \<open>lower\<close> of the runtime is a parameter of
  \<open>normalize\<close> and of every function that normalises.
\<close>

definition normalize_str :: "(jsstring \<Rightarrow> jsstring) \<Rightarrow> jsstring \<Rightarrow> jsstring" where
  "normalize_str lower s = filter (\<lambda>c. \<not> stripped c) (lower s)"

text \<open>
  The normalisation as the claim words it, for comparison: lower case, and white space,
  punctuation and brackets removed, punctuation being that of ASCII.
\<close>

definition isPunctuation :: "jschar \<Rightarrow> bool" where
  "isPunctuation c \<longleftrightarrow>
     (33 \<le> c \<and> c \<le> 47) \<or> (58 \<le> c \<and> c \<le> 64) \<or> (91 \<le> c \<and> c \<le> 96)
     \<or> (123 \<le> c \<and> c \<le> 126) \<or> c = 65288 \<or> c = 65289"

definition normalize_claimed :: "(jsstring \<Rightarrow> jsstring) \<Rightarrow> jsstring \<Rightarrow> jsstring" where
  "normalize_claimed lower s =
     filter (\<lambda>c. \<not> isWhiteSpace c \<and> \<not> isPunctuation c) (lower s)"

text \<open>\<open>new Set(s)\<close> holds the code points of \<open>s\<close>; the literal \<open>0.8\<close> is the double
  nearest to 4/5, and the quotient of the two sizes is a double.\<close>

definition calculateSimilarity ::
  "(jsstring \<Rightarrow> jsstring) \<Rightarrow> jsstring \<Rightarrow> jsstring \<Rightarrow> jsnumber" where
  "calculateSimilarity lower str1 str2 =
     (let s1 = normalize_str lower str1; s2 = normalize_str lower str2 in
      if s1 = s2 then 1
      else if includes_str s1 s2 \<or> includes_str s2 s1 then round64 (4 / 5)
      else
        (let set1 = remdups (codePoints s1); set2 = remdups (codePoints s2);
             intersection = filter (\<lambda>x. x \<in> set set2) set1;
             union = remdups (set1 @ set2)
         in fdiv (of_nat (length intersection)) (of_nat (length union))))"

text \<open>The two statistics tables are JavaScript maps: association lists in insertion order.\<close>

type_synonym counters = "(jsstring \<times> jsnumber) list"

text \<open>\<open>m.get(k) || 0\<close>\<close>

definition getCount :: "counters \<Rightarrow> jsstring \<Rightarrow> jsnumber" where
  "getCount m k = (case map_of m k of None \<Rightarrow> 0 | Some v \<Rightarrow> v)"

definition FALLBACK_SOURCES :: "jsstring list" where
  "FALLBACK_SOURCES =
     [js ''kuwo'', js ''kugou'', js ''migu'', js ''tencent'', js ''ximalaya'', js ''joox'']"

definition getSortedFallbackSources :: "counters \<Rightarrow> jsstring \<Rightarrow> jsstring list" where
  "getSortedFallbackSources sourceSuccessCount excludeSource =
     js_sort (\<lambda>a b. getCount sourceSuccessCount b - getCount sourceSuccessCount a)
       (filter (\<lambda>s. s \<noteq> excludeSource) FALLBACK_SOURCES)"

section \<open>Lyric parser (js/player/lyrics.ts)\<close>

text \<open>
  The regular expression \<open>\[\d{2}:\d{2}\.\d{2,3}\]\<close> tried at the start of a string:
  the length of the match, if there is one. The fraction is greedy, so three digits are
  taken when a closing bracket follows them, and two otherwise.
\<close>

definition tagAt :: "jsstring \<Rightarrow> nat option" where
  "tagAt s =
     (if 10 \<le> length s \<and> s ! 0 = 91 \<and> isDigit (s ! 1) \<and> isDigit (s ! 2) \<and> s ! 3 = 58
         \<and> isDigit (s ! 4) \<and> isDigit (s ! 5) \<and> s ! 6 = 46 \<and> isDigit (s ! 7) \<and> isDigit (s ! 8)
      then (if 11 \<le> length s \<and> isDigit (s ! 9) \<and> s ! 10 = 93 then Some 11
            else if s ! 9 = 93 then Some 10
            else None)
      else None)"

text \<open>\<open>line.match(re)\<close> with the global flag: all the matches, from left to right, each
  search starting where the last match ended. No match is the empty list.\<close>

function scanTags :: "jsstring \<Rightarrow> jsstring list" where
  "scanTags s =
     (if s = [] then []
      else (case tagAt s of
              Some n \<Rightarrow> take n s # scanTags (drop n s)
            | None \<Rightarrow> scanTags (tl s)))"
  by pat_completeness auto
termination
  by (relation "measure length") (auto simp: tagAt_def split: if_splits)

text \<open>\<open>line.replace(re, '')\<close> with the global flag: the line without its matches.\<close>

function removeTags :: "jsstring \<Rightarrow> jsstring" where
  "removeTags s =
     (if s = [] then []
      else (case tagAt s of
              Some n \<Rightarrow> removeTags (drop n s)
            | None \<Rightarrow> hd s # removeTags (tl s)))"
  by pat_completeness auto
termination
  by (relation "measure length") (auto simp: tagAt_def split: if_splits)

text \<open>\<open>tag.match(re)\<close> without the global flag: the first match, or nothing.\<close>

definition firstTag :: "jsstring \<Rightarrow> jsstring option" where
  "firstTag s = (case scanTags s of [] \<Rightarrow> None | t # _ \<Rightarrow> Some t)"

text \<open>The time of a matched tag: the three groups are the digits at fixed places.\<close>

definition tagTime :: "jsstring \<Rightarrow> jsnumber" where
  "tagTime mt =
     (let m = parseInt (take 2 (drop 1 mt));
          s = parseInt (take 2 (drop 4 mt));
          frac = take (length mt - 8) (drop 7 mt);
          ms = parseInt frac;
          msValue = (if length frac = 2 then ms * 10 else ms)
      in of_int (m * 60 + s) + of_int msValue / 1000)"

definition parseLine :: "jsstring \<Rightarrow> (jsnumber \<times> jsstring) list" where
  "parseLine line =
     (let timeTags = scanTags line in
      if timeTags = [] then []
      else
        (let text = trim (removeTags line) in
         if text = [] then []
         else map (\<lambda>tag. case firstTag tag of
                             None \<Rightarrow> (0, [])
                           | Some mt \<Rightarrow> (tagTime mt, text)) timeTags))"

text \<open>A lyric line: \<open>time\<close> in seconds, the text (field \<open>text\<close> of the source) and the
  translated text, absent until a translation is merged.\<close>

record LyricLine =
  time :: jsnumber
  ltext :: jsstring
  ttext :: "jsstring option"

fun findIndex :: "('a \<Rightarrow> bool) \<Rightarrow> 'a list \<Rightarrow> nat option" where
  "findIndex P [] = None"
| "findIndex P (x # xs) =
     (if P x then Some 0 else map_option Suc (findIndex P xs))"

text \<open>
  The field \<open>time\<close> keeps the exact value \<open>m * 60 + s + msValue / 1000\<close> of a tag, with
  \<open>msValue\<close> below 1000. The double that the program holds for it is the rounded sum of
  the integer \<open>m * 60 + s\<close>, which is the integral part, and the rounded quotient
  \<open>msValue / 1000\<close>.
\<close>

definition timeDouble :: "jsnumber \<Rightarrow> jsnumber" where
  "timeDouble t = fadd (of_int \<lfloor>t\<rfloor>) (fdiv ((t - of_int \<lfloor>t\<rfloor>) * 1000) 1000)"

text \<open>\<open>Math.abs(l.time - tp.time) < 0.1\<close>, on doubles: the difference is rounded, and
  \<open>0.1\<close> is the double nearest to a tenth.\<close>

definition withinTolerance :: "jsnumber \<Rightarrow> jsnumber \<Rightarrow> bool" where
  "withinTolerance a b \<longleftrightarrow> \<bar>fsub (timeDouble a) (timeDouble b)\<bar> < round64 (1 / 10)"

text \<open>The body of the inner \<open>forEach\<close> over the parsed translation lines: find the first
  line within the tolerance, and set its translated text.\<close>

definition mergeTranslation :: "LyricLine list \<Rightarrow> jsnumber \<times> jsstring \<Rightarrow> LyricLine list" where
  "mergeTranslation lyricData tp =
     (case findIndex (\<lambda>l. withinTolerance (time l) (fst tp)) lyricData of
        None \<Rightarrow> lyricData
      | Some i \<Rightarrow> lyricData[i := (lyricData ! i)\<lparr>ttext := Some (snd tp)\<rparr>])"

text \<open>The lines of a text, parsed, in the order of the text.\<close>

definition parseAll :: "jsstring \<Rightarrow> (jsnumber \<times> jsstring) list" where
  "parseAll s = concat (map parseLine (splitLines s))"

definition parseLyrics :: "jsstring \<Rightarrow> jsstring option \<Rightarrow> LyricLine list" where
  "parseLyrics lrc tlyric =
     (if lrc = [] then []
      else
        (let lyricData = map (\<lambda>p. \<lparr>time = fst p, ltext = snd p, ttext = None\<rparr>) (parseAll lrc);
             sorted = js_sort (\<lambda>a b. time a - time b) lyricData
         in case tlyric of
              None \<Rightarrow> sorted
            | Some t \<Rightarrow> if t = [] then sorted else foldl mergeTranslation sorted (parseAll t)))"

section \<open>Preview detector (js/api/music.ts)\<close>

text \<open>
  The constants of \<open>PREVIEW_DETECTION\<close> come from the configuration module, which is
  not part of the sources at hand: they are a parameter of every function that reads them.
\<close>

record PreviewDetection =
  MIN_FILE_SIZE :: jsnumber
  MIN_DURATION :: jsnumber
  MAX_DURATION :: jsnumber
  TYPICAL_DURATIONS :: "jsnumber list"
  DURATION_TOLERANCE :: jsnumber
  SIMILARITY_THRESHOLD :: jsnumber
  PROACTIVE_CHECK :: bool

text \<open>
  A regular expression with the flag \<open>i\<close> compares canonical code units: a small ASCII
  letter is its capital, and a code unit outside ASCII never becomes an ASCII one. The
  patterns here are literal ASCII words, so \<open>test\<close> is a search for the word.
\<close>

definition canon :: "jschar \<Rightarrow> jschar" where
  "canon c = (if 97 \<le> c \<and> c \<le> 122 then c - 32 else c)"

definition regexTestCI :: "jsstring \<Rightarrow> jsstring \<Rightarrow> bool" where
  "regexTestCI pattern url = includes_str (map canon url) (map canon pattern)"

definition previewPatterns :: "jsstring list" where
  "previewPatterns =
     [js ''preview'', js ''trial'', js ''sample'', js ''freepart'', js ''clip'', js ''m-trial'']"

definition isProbablyPreview ::
  "PreviewDetection \<Rightarrow> jsstring \<Rightarrow> jsnumber option \<Rightarrow> jsnumber option \<Rightarrow> bool" where
  "isProbablyPreview pd url fsize knownDuration =
     (if url = [] then True
      else if list_ex (\<lambda>pattern. regexTestCI pattern url) previewPatterns then True
      else if (case fsize of None \<Rightarrow> False
               | Some sz \<Rightarrow> sz \<noteq> 0 \<and> sz > 0 \<and> sz < MIN_FILE_SIZE pd) then True
      else
        (case knownDuration of
           None \<Rightarrow> False
         | Some kd \<Rightarrow>
             if kd \<noteq> 0 \<and> kd > 0 then
               (let durationSec = kd / 1000 in
                if durationSec \<ge> MIN_DURATION pd \<and> durationSec \<le> MAX_DURATION pd then
                  (let isNearTypical =
                         list_ex (\<lambda>typical. \<bar>durationSec - typical\<bar> \<le> DURATION_TOLERANCE pd)
                           (TYPICAL_DURATIONS pd)
                   in if isNearTypical then True else False)
                else False)
             else False))"

section \<open>Resolution orchestrator (js/api/music.ts, js/api/utils.ts)\<close>

subsection \<open>Data\<close>

text \<open>A thrown value. \<open>TypeError\<close> is what reading a property of \<open>undefined\<close> throws.\<close>

datatype JsError = MusicError jsstring | TypeError | OtherError

text \<open>The artist of a song or of a candidate is a string or an array of strings.\<close>

datatype artist = ArtistName jsstring | ArtistList "jsstring list"

text \<open>The fields of \<open>Song\<close> that the orchestrator reads: \<open>id\<close>, \<open>name\<close>, \<open>artist\<close>,
  \<open>source\<close> and \<open>duration\<close>, the last two optional.\<close>

record Song =
  song_id :: jsstring
  song_name :: jsstring
  song_artist :: artist
  song_source :: "jsstring option"
  song_duration :: "jsnumber option"

text \<open>\<open>SongUrlResult\<close>: \<open>url\<close>, \<open>br\<close>, and the optional \<open>size\<close> and \<open>source\<close>.\<close>

record SongUrlResult =
  r_url :: jsstring
  r_br :: jsstring
  r_size :: "jsnumber option"
  r_source :: "jsstring option"

text \<open>The first entry of \<open>data\<close> in the answer of the primary catalog; \<open>n_br\<close> holds
  \<open>String(br)\<close>.\<close>

record NecEntry =
  n_url :: "jsstring option"
  n_br :: jsstring
  n_size :: "jsnumber option"

record NecResponse =
  nec_code :: int
  nec_data :: "NecEntry list"

record GdUrlResponse =
  g_url :: "jsstring option"
  g_br :: "jsstring option"
  g_size :: "jsnumber option"

record GdSong =
  gs_id :: jsstring
  gs_name :: jsstring
  gs_artist :: artist

text \<open>
  What lies outside the module: the answers of the network, the answer of the circuit
  breaker and the health of the storage. A request together with the parsing of its
  answer either throws or gives the parsed value; the answers do not depend on when they
  are asked for. \<open>gdSearch\<close> gives the answer already turned into a list
  (\<open>Array.isArray(data) ? data : Object.values(data || {})\<close>). The breaker's answer
  \<open>gdAvailable\<close> is taken as constant during one resolution; the reports made to
  the breaker are part of the trace. \<open>toLowerCase\<close> is the case mapping of the runtime.
\<close>

record Env =
  config :: PreviewDetection
  toLowerCase :: "jsstring \<Rightarrow> jsstring"
  gdAvailable :: bool
  necMatch :: "jsstring \<Rightarrow> JsError + NecResponse"
  gdUrl :: "jsstring \<Rightarrow> jsstring \<Rightarrow> jsstring \<Rightarrow> JsError + GdUrlResponse option"
  gdSearch :: "jsstring \<Rightarrow> jsstring \<Rightarrow> JsError + GdSong list"
  storageWorks :: bool

text \<open>The variables of the modules, and the item \<open>api_source_stats\<close> of the storage.\<close>

record State =
  sourceSuccessCount :: counters
  sourceFailCount :: counters
  api_source_stats :: "(counters \<times> counters) option"
  crossSourceSearchInProgress :: "jsstring list"

text \<open>What a call does to the outside, in the order of a run in which every asynchronous
  call finishes before the next statement of its caller.\<close>

datatype event =
    CallSweep jsstring "jsstring option" jsstring jsstring
  | CallSearch jsstring jsstring "jsstring option"
  | MarkAvailable
  | MarkUnavailable

text \<open>The calls of \<open>searchSingleSource\<close> and of \<open>searchSongFromOtherSources\<close> in a
  trace, and the trace events that are a search for a given name and artist.\<close>

definition isCallSearch :: "event \<Rightarrow> bool" where
  "isCallSearch e = (case e of CallSearch _ _ _ \<Rightarrow> True | _ \<Rightarrow> False)"

definition isCallSweep :: "event \<Rightarrow> bool" where
  "isCallSweep e = (case e of CallSweep _ _ _ _ \<Rightarrow> True | _ \<Rightarrow> False)"

definition targets :: "jsstring \<Rightarrow> jsstring option \<Rightarrow> event \<Rightarrow> bool" where
  "targets n a e =
     (case e of
        CallSweep n' a' _ _ \<Rightarrow> n' = n \<and> a' = a
      | CallSearch _ n' a' \<Rightarrow> n' = n \<and> a' = a
      | _ \<Rightarrow> True)"

subsection \<open>Match score\<close>

fun join :: "jsstring \<Rightarrow> jsstring list \<Rightarrow> jsstring" where
  "join sep [] = []"
| "join sep [x] = x"
| "join sep (x # y # zs) = x @ sep @ join sep (y # zs)"

text \<open>The target artist is \<open>undefined\<close> when it was read from an empty array; normalising
  it throws. The weights are the doubles nearest to 0.6 and 0.4, and the two products and
  their sum are rounded.\<close>

definition calculateSongMatchScore ::
  "(jsstring \<Rightarrow> jsstring) \<Rightarrow> jsstring \<Rightarrow> jsstring option \<Rightarrow> jsstring \<Rightarrow> artist
     \<Rightarrow> JsError + jsnumber" where
  "calculateSongMatchScore lower targetName targetArtist candidateName candidateArtist =
     (let nameScore = calculateSimilarity lower targetName candidateName;
          candidateArtistStr =
            (case candidateArtist of ArtistList xs \<Rightarrow> join (js ''/'') xs | ArtistName s \<Rightarrow> s)
      in case targetArtist of
           None \<Rightarrow> Inl TypeError
         | Some ta \<Rightarrow>
             (let artistScore = calculateSimilarity lower ta candidateArtistStr
              in Inr (fadd (fmul nameScore (round64 (3 / 5)))
                           (fmul artistScore (round64 (2 / 5))))))"

subsection \<open>Statistics\<close>

text \<open>\<open>m.set(k, (m.get(k) || 0) + 1)\<close>\<close>

definition bump :: "counters \<Rightarrow> jsstring \<Rightarrow> counters" where
  "bump m k = AList.update k (getCount m k + 1) m"

definition saveSourceStats :: "Env \<Rightarrow> State \<Rightarrow> State" where
  "saveSourceStats env st =
     (if storageWorks env
      then st\<lparr>api_source_stats := Some (sourceSuccessCount st, sourceFailCount st)\<rparr>
      else st)"

subsection \<open>Lookups\<close>

definition sourceOf :: "Song \<Rightarrow> jsstring" where
  "sourceOf song =
     (case song_source song of None \<Rightarrow> js ''netease''
      | Some s \<Rightarrow> if s = [] then js ''netease'' else s)"

text \<open>\<open>Array.isArray(song.artist) ? song.artist[0] : song.artist\<close>\<close>

definition firstArtist :: "artist \<Rightarrow> jsstring option" where
  "firstArtist a =
     (case a of ArtistName s \<Rightarrow> Some s
      | ArtistList xs \<Rightarrow> (case xs of [] \<Rightarrow> None | x # _ \<Rightarrow> Some x))"

definition getSongUrlFromSource ::
  "Env \<Rightarrow> jsstring \<Rightarrow> jsstring \<Rightarrow> jsstring \<Rightarrow> SongUrlResult option \<times> event list" where
  "getSongUrlFromSource env songId source quality =
     (if \<not> gdAvailable env then (None, [])
      else
        (case gdUrl env source songId quality of
           Inl e \<Rightarrow>
             (None,
              (case e of
                 MusicError message \<Rightarrow>
                   if includes_str message (js ''403'') then [MarkUnavailable] else []
               | _ \<Rightarrow> []))
         | Inr data \<Rightarrow>
             (case data of
                None \<Rightarrow> (None, [])
              | Some d \<Rightarrow>
                  (case g_url d of
                     None \<Rightarrow> (None, [])
                   | Some u \<Rightarrow>
                       if u = [] then (None, [])
                       else
                         (Some \<lparr>r_url = u,
                                r_br = (case g_br d of None \<Rightarrow> quality
                                        | Some b \<Rightarrow> if b = [] then quality else b),
                                r_size = (case g_size d of None \<Rightarrow> None
                                          | Some z \<Rightarrow> if z = 0 then None else Some (z * 1024)),
                                r_source = None\<rparr>,
                          [MarkAvailable])))))"

text \<open>The loop over the bit rates 128 and 320 in \<open>searchSingleSource\<close>.\<close>

fun tryQualities ::
  "Env \<Rightarrow> jsstring \<Rightarrow> jsstring \<Rightarrow> jsstring list \<Rightarrow> SongUrlResult option \<times> event list" where
  "tryQualities env source songId [] = (None, [])"
| "tryQualities env source songId (q # qs) =
     (let (res, evs) = getSongUrlFromSource env songId source q in
      case res of
        None \<Rightarrow> (let (r, evs') = tryQualities env source songId qs in (r, evs @ evs'))
      | Some r0 \<Rightarrow>
          if r_url r0 \<noteq> [] \<and> \<not> isProbablyPreview (config env) (r_url r0) (r_size r0) None
          then (Some (r0\<lparr>r_source := Some source\<rparr>), evs)
          else (let (r, evs') = tryQualities env source songId qs in (r, evs @ evs')))"

text \<open>The scores of the candidates; the first score that throws ends the \<open>map\<close>.\<close>

fun scoreAll ::
  "(jsstring \<Rightarrow> jsstring) \<Rightarrow> jsstring \<Rightarrow> jsstring option \<Rightarrow> GdSong list
     \<Rightarrow> JsError + (GdSong \<times> jsnumber) list" where
  "scoreAll lower songName artistName [] = Inr []"
| "scoreAll lower songName artistName (s # ss) =
     (case calculateSongMatchScore lower songName artistName (gs_name s) (gs_artist s) of
        Inl e \<Rightarrow> Inl e
      | Inr score \<Rightarrow>
          (case scoreAll lower songName artistName ss of
             Inl e \<Rightarrow> Inl e
           | Inr rest \<Rightarrow> Inr ((s, score) # rest)))"

definition searchSingleSource ::
  "Env \<Rightarrow> jsstring \<Rightarrow> jsstring \<Rightarrow> jsstring option \<Rightarrow> SongUrlResult option \<times> event list" where
  "searchSingleSource env source songName artistName =
     (if \<not> gdAvailable env then (None, [CallSearch source songName artistName])
      else
        (let keyword = songName @ js '' ''
               @ (case artistName of None \<Rightarrow> js ''undefined'' | Some a \<Rightarrow> a)
         in case gdSearch env source keyword of
              Inl e \<Rightarrow> (None, [CallSearch source songName artistName])
            | Inr songs \<Rightarrow>
                (case scoreAll (toLowerCase env) songName artistName songs of
                   Inl e \<Rightarrow> (None, [CallSearch source songName artistName])
                 | Inr scored \<Rightarrow>
                     (case js_sort (\<lambda>a b. fsub (snd b) (snd a))
                             (filter (\<lambda>m. snd m > SIMILARITY_THRESHOLD (config env)) scored) of
                        [] \<Rightarrow> (None, [CallSearch source songName artistName])
                      | bestMatch # _ \<Rightarrow>
                          (let (r, evs) = tryQualities env source (gs_id (fst bestMatch))
                                            [js ''128'', js ''320'']
                           in (r, CallSearch source songName artistName # evs))))))"

subsection \<open>Cross-catalog sweep\<close>

text \<open>The loop over the joined results: the first result that is not null is counted
  as a success and returned; every null before it is counted as a failure.\<close>

fun tally ::
  "Env \<Rightarrow> (jsstring \<times> SongUrlResult option) list \<Rightarrow> State \<Rightarrow> SongUrlResult option \<times> State" where
  "tally env [] st = (None, saveSourceStats env st)"
| "tally env ((source, res) # rest) st =
     (case res of
        Some r \<Rightarrow>
          (Some r,
           saveSourceStats env (st\<lparr>sourceSuccessCount := bump (sourceSuccessCount st) source\<rparr>))
      | None \<Rightarrow> tally env rest (st\<lparr>sourceFailCount := bump (sourceFailCount st) source\<rparr>))"

definition searchSongFromOtherSources ::
  "Env \<Rightarrow> State \<Rightarrow> jsstring \<Rightarrow> jsstring option \<Rightarrow> jsstring \<Rightarrow> jsstring
     \<Rightarrow> SongUrlResult option \<times> State \<times> event list" where
  "searchSongFromOtherSources env st songName artistName excludeSource quality =
     (let sources = getSortedFallbackSources (sourceSuccessCount st) excludeSource;
          calls = map (\<lambda>source. (source, searchSingleSource env source songName artistName)) sources;
          results = map (\<lambda>c. (fst c, fst (snd c))) calls;
          (res, st') = tally env results st
      in (res, st', CallSweep songName artistName excludeSource quality
                     # concat (map (\<lambda>c. snd (snd c)) calls)))"

subsection \<open>Resolution of a song\<close>

text \<open>
  Step 1 of \<open>getSongUrl\<close>, up to the result it builds: the answer of the primary catalog
  for a song of that catalog, when it has code 200 and a first entry with a URL.
\<close>

definition primaryLookup :: "Env \<Rightarrow> Song \<Rightarrow> SongUrlResult option" where
  "primaryLookup env song =
     (if sourceOf song = js ''netease'' then
        (case necMatch env (song_id song) of
           Inl e \<Rightarrow> None
         | Inr matchData \<Rightarrow>
             if nec_code matchData = 200 then
               (case nec_data matchData of
                  [] \<Rightarrow> None
                | d # _ \<Rightarrow>
                    (case n_url d of
                       None \<Rightarrow> None
                     | Some u \<Rightarrow>
                         if u = [] then None
                         else Some \<lparr>r_url = u, r_br = n_br d, r_size = n_size d, r_source = None\<rparr>))
             else None)
      else None)"

text \<open>
  The local variables of \<open>getSongUrl\<close> on the way: the value of an early \<open>return\<close>, the
  stashed candidates, the background search (absent when it was not started, else the
  value it resolves to), the state and the trace. A background search is run when it is
  started: its answers do not depend on the time, and only the order of the trace could
  differ.
\<close>

record Progress =
  returned :: "SongUrlResult option"
  candidates :: "SongUrlResult list"
  crossSourcePromise :: "SongUrlResult option option"
  state :: State
  trace :: "event list"

definition startCrossSearch :: "Env \<Rightarrow> Song \<Rightarrow> jsstring \<Rightarrow> Progress \<Rightarrow> Progress" where
  "startCrossSearch env song quality p =
     (let (x, st', evs) =
            searchSongFromOtherSources env (state p) (song_name song)
              (firstArtist (song_artist song)) (sourceOf song) quality
      in p\<lparr>crossSourcePromise := Some x, state := st', trace := trace p @ evs\<rparr>)"

definition primaryStep :: "Env \<Rightarrow> State \<Rightarrow> Song \<Rightarrow> jsstring \<Rightarrow> Progress" where
  "primaryStep env st song quality =
     (let p0 = \<lparr>returned = None, candidates = [], crossSourcePromise = None, state = st, trace = []\<rparr>
      in case primaryLookup env song of
           None \<Rightarrow> p0
         | Some res \<Rightarrow>
             if \<not> isProbablyPreview (config env) (r_url res) (r_size res) None
             then p0\<lparr>returned := Some res\<rparr>
             else
               (let p1 = p0\<lparr>candidates := candidates p0 @ [res]\<rparr>
                in if PROACTIVE_CHECK (config env) then startCrossSearch env song quality p1
                   else p1))"

definition aggregatorStep :: "Env \<Rightarrow> Song \<Rightarrow> jsstring \<Rightarrow> Progress \<Rightarrow> Progress" where
  "aggregatorStep env song quality p =
     (if gdAvailable env then
        (let (r, evs) = getSongUrlFromSource env (song_id song) (sourceOf song) quality;
             p1 = p\<lparr>trace := trace p @ evs\<rparr>
         in case r of
              None \<Rightarrow> p1
            | Some res \<Rightarrow>
                if \<not> isProbablyPreview (config env) (r_url res) (r_size res) (song_duration song)
                then p1\<lparr>returned := Some res\<rparr>
                else
                  (let p2 = p1\<lparr>candidates := candidates p1 @ [res]\<rparr>
                   in if crossSourcePromise p2 = None \<and> PROACTIVE_CHECK (config env)
                      then startCrossSearch env song quality p2
                      else p2))
      else p)"

text \<open>The end of \<open>getSongUrl\<close>: the result of the background search if there is one, else
  the first candidate, else the result with the empty URL.\<close>

definition fallbackStep :: "jsstring \<Rightarrow> Progress \<Rightarrow> SongUrlResult" where
  "fallbackStep quality p =
     (case crossSourcePromise p of
        Some (Some res) \<Rightarrow> res
      | _ \<Rightarrow>
          (case candidates p of
             c # _ \<Rightarrow> c
           | [] \<Rightarrow> \<lparr>r_url = [], r_br = quality, r_size = None, r_source = None\<rparr>))"

text \<open>The locals when \<open>getSongUrl\<close> returns early or reaches step 3.\<close>

definition getSongUrl_progress :: "Env \<Rightarrow> State \<Rightarrow> Song \<Rightarrow> jsstring \<Rightarrow> Progress" where
  "getSongUrl_progress env st song quality =
     (let p1 = primaryStep env st song quality in
      case returned p1 of
        Some res \<Rightarrow> p1
      | None \<Rightarrow> aggregatorStep env song quality p1)"

definition getSongUrl ::
  "Env \<Rightarrow> State \<Rightarrow> Song \<Rightarrow> jsstring \<Rightarrow> SongUrlResult \<times> State \<times> event list" where
  "getSongUrl env st song quality =
     (let p = getSongUrl_progress env st song quality in
      case returned p of
        Some res \<Rightarrow> (res, state p, trace p)
      | None \<Rightarrow> (fallbackStep quality p, state p, trace p))"

subsection \<open>The guard against a second search for the same song\<close>

definition inFlightKey :: "Song \<Rightarrow> jsstring" where
  "inFlightKey song =
     song_id song @ js ''_''
       @ (case song_source song of None \<Rightarrow> js ''undefined'' | Some s \<Rightarrow> s)"

text \<open>
  \<open>tryGetFullVersionFromOtherSources\<close> for any behaviour of the search it awaits:
  \<open>search\<close> gets the state in which it is started and gives the value it resolves to or
  the error it rejects with, the state when it settles (other calls may have run in
  between) and the trace. The \<open>finally\<close> block runs in both cases.
\<close>

definition tryGetFullVersion_body ::
  "(State \<Rightarrow> jsstring \<Rightarrow> jsstring option \<Rightarrow> jsstring \<Rightarrow> jsstring
      \<Rightarrow> (JsError + SongUrlResult option) \<times> State \<times> event list)
   \<Rightarrow> State \<Rightarrow> Song \<Rightarrow> jsstring \<Rightarrow> (JsError + SongUrlResult option) \<times> State \<times> event list" where
  "tryGetFullVersion_body search st song quality =
     (let key = inFlightKey song in
      if key \<in> set (crossSourceSearchInProgress st) then (Inr None, st, [])
      else
        (let st1 = st\<lparr>crossSourceSearchInProgress := crossSourceSearchInProgress st @ [key]\<rparr>;
             artist = firstArtist (song_artist song);
             (outcome, st2, evs) = search st1 (song_name song) artist (sourceOf song) quality
         in (outcome,
             st2\<lparr>crossSourceSearchInProgress := removeAll key (crossSourceSearchInProgress st2)\<rparr>,
             evs)))"

text \<open>
  The function itself awaits \<open>searchSongFromOtherSources\<close>. Scheduling is cooperative: while
  the call waits, other tasks run. \<open>others\<close> is what they do to the state and to the trace;
  \<open>idle\<close> is no other task. The sweep reads the roster and sends its requests when it is
  called; the other tasks run while it waits for the answers; the loop over the joined
  results updates the counters as they are then. The events of the other tasks are listed
  after those of the sweep.
\<close>

definition idle :: "State \<Rightarrow> State \<times> event list" where
  "idle st = (st, [])"

definition searchSongFromOtherSources_await ::
  "Env \<Rightarrow> (State \<Rightarrow> State \<times> event list) \<Rightarrow> State \<Rightarrow> jsstring \<Rightarrow> jsstring option \<Rightarrow> jsstring
     \<Rightarrow> jsstring \<Rightarrow> SongUrlResult option \<times> State \<times> event list" where
  "searchSongFromOtherSources_await env others st songName artistName excludeSource quality =
     (let sources = getSortedFallbackSources (sourceSuccessCount st) excludeSource;
          calls = map (\<lambda>source. (source, searchSingleSource env source songName artistName)) sources;
          results = map (\<lambda>c. (fst c, fst (snd c))) calls;
          (stw, evsw) = others st;
          (res, st') = tally env results stw
      in (res, st', CallSweep songName artistName excludeSource quality
                     # concat (map (\<lambda>c. snd (snd c)) calls) @ evsw))"

definition tryGetFullVersionFromOtherSources ::
  "Env \<Rightarrow> (State \<Rightarrow> State \<times> event list) \<Rightarrow> State \<Rightarrow> Song \<Rightarrow> jsstring
     \<Rightarrow> (JsError + SongUrlResult option) \<times> State \<times> event list" where
  "tryGetFullVersionFromOtherSources env others =
     tryGetFullVersion_body
       (\<lambda>st songName artistName excludeSource quality.
          (let (res, st', evs) =
                 searchSongFromOtherSources_await env others st songName artistName
                   excludeSource quality
           in (Inr res, st', evs)))"

text \<open>A second call for the same song, made by another task while the first call waits.\<close>

definition duplicateCall :: "Env \<Rightarrow> Song \<Rightarrow> jsstring \<Rightarrow> State \<Rightarrow> State \<times> event list" where
  "duplicateCall env song quality st =
     (let (r, st', evs) = tryGetFullVersionFromOtherSources env idle st song quality
      in (st', evs))"

section \<open>Circuit breaker (js/circuit-breaker.ts)\<close>

text \<open>
  Modelled from the spec: the module \<open>circuit-breaker\<close> is imported by the source
  configuration module (\<open>gdstudioCircuit\<close>, \<open>CircuitState\<close>) and is not among the sources
  at hand. The state is what section 3 of the specification lists: the enumeration, the
  counter of consecutive failures, the time of the last failure and the configured
  threshold and cool-down. The clock is a parameter, in milliseconds.
\<close>

datatype CircuitState = CLOSED | OPEN | HALF_OPEN

record CircuitBreaker =
  circuitState :: CircuitState
  failureCount :: nat
  lastFailureTime :: int
  failureThreshold :: nat
  coolDown :: int

text \<open>
  Modelled from the spec: \<open>canExecute\<close>, missing with its module. CLOSED allows calls;
  OPEN rejects until the cool-down has elapsed since the last failure, and then becomes
  HALF_OPEN and allows the call, which is the trial; HALF_OPEN allows no further call
  (section 8: exactly one trial call is allowed).
\<close>

definition canExecute :: "int \<Rightarrow> CircuitBreaker \<Rightarrow> bool \<times> CircuitBreaker" where
  "canExecute now cb =
     (case circuitState cb of
        CLOSED \<Rightarrow> (True, cb)
      | OPEN \<Rightarrow>
          if now - lastFailureTime cb \<ge> coolDown cb
          then (True, cb\<lparr>circuitState := HALF_OPEN\<rparr>)
          else (False, cb)
      | HALF_OPEN \<Rightarrow> (False, cb))"

text \<open>
  Modelled from the spec: \<open>recordSuccess\<close>, missing with its module. A success closes
  the circuit and zeroes the counter of consecutive failures.
\<close>

definition recordSuccess :: "CircuitBreaker \<Rightarrow> CircuitBreaker" where
  "recordSuccess cb = cb\<lparr>circuitState := CLOSED, failureCount := 0\<rparr>"

text \<open>
  Modelled from the spec: \<open>recordFailure\<close>, missing with its module. A failure is
  counted and timed; in CLOSED the circuit opens when the count reaches the threshold,
  in HALF_OPEN it opens again at once, so that the cool-down restarts.
\<close>

definition recordFailure :: "int \<Rightarrow> CircuitBreaker \<Rightarrow> CircuitBreaker" where
  "recordFailure now cb =
     (let cb1 = cb\<lparr>failureCount := failureCount cb + 1, lastFailureTime := now\<rparr>
      in case circuitState cb of
           CLOSED \<Rightarrow>
             if failureCount cb1 \<ge> failureThreshold cb1 then cb1\<lparr>circuitState := OPEN\<rparr> else cb1
         | HALF_OPEN \<Rightarrow> cb1\<lparr>circuitState := OPEN\<rparr>
         | OPEN \<Rightarrow> cb1)"

text \<open>Modelled from the spec: \<open>getState\<close>, missing with its module, reads the state.\<close>

definition getState :: "CircuitBreaker \<Rightarrow> CircuitState" where
  "getState cb = circuitState cb"

text \<open>Failures reported one after the other, at the given times.\<close>

definition recordFailures :: "int list \<Rightarrow> CircuitBreaker \<Rightarrow> CircuitBreaker" where
  "recordFailures ts cb = foldl (\<lambda>c t. recordFailure t c) cb ts"

section \<open>Example inputs\<close>

text \<open>A case mapping for the examples: that of the runtime on Basic Latin and Latin-1
  text. Code units above that range are left as they are.\<close>

definition lowerLatin1 :: "jsstring \<Rightarrow> jsstring" where
  "lowerLatin1 s =
     map (\<lambda>c. if 65 \<le> c \<and> c \<le> 90 then c + 32
              else if 192 \<le> c \<and> c \<le> 222 \<and> c \<noteq> 215 then c + 32
              else c) s"

text \<open>A configuration with a size threshold of 100 KB and a similarity threshold of 0.6,
  and a song with two artists.\<close>

definition examplePd :: PreviewDetection where
  "examplePd =
     \<lparr>MIN_FILE_SIZE = 102400, MIN_DURATION = 25, MAX_DURATION = 65, TYPICAL_DURATIONS = [30, 60],
      DURATION_TOLERANCE = 2, SIMILARITY_THRESHOLD = round64 (3 / 5), PROACTIVE_CHECK = True\<rparr>"

definition exampleSong :: Song where
  "exampleSong =
     \<lparr>song_id = js ''1001'', song_name = js ''Love Story'',
      song_artist = ArtistList [js ''Taylor Swift'', js ''Ed Sheeran''],
      song_source = Some (js ''netease''), song_duration = None\<rparr>"

definition emptyState :: State where
  "emptyState =
     \<lparr>sourceSuccessCount = [], sourceFailCount = [], api_source_stats = None,
      crossSourceSearchInProgress = []\<rparr>"

text \<open>
  The primary catalog answers with a file of 50 KB; the aggregator resolves the song
  itself and the candidate of kuwo to full files, and only kuwo answers a search.
\<close>

definition exampleEnv :: Env where
  "exampleEnv =
     \<lparr>config = examplePd,
      toLowerCase = lowerLatin1,
      gdAvailable = True,
      necMatch = (\<lambda>i. Inr \<lparr>nec_code = 200,
                            nec_data = [\<lparr>n_url = Some (js ''http://m/a.mp3''),
                                         n_br = js ''128000'', n_size = Some 51200\<rparr>]\<rparr>),
      gdUrl = (\<lambda>source i b.
                 if source = js ''netease''
                 then Inr (Some \<lparr>g_url = Some (js ''http://g/full.mp3''), g_br = Some (js ''320''),
                                 g_size = Some 8000\<rparr>)
                 else if source = js ''kuwo''
                 then Inr (Some \<lparr>g_url = Some (js ''http://k/full.mp3''), g_br = None,
                                 g_size = Some 4000\<rparr>)
                 else Inl OtherError),
      gdSearch = (\<lambda>source keyword.
                    if source = js ''kuwo''
                    then Inr [\<lparr>gs_id = js ''k7'', gs_name = js ''Love Story'',
                               gs_artist = ArtistList [js ''Taylor Swift'']\<rparr>]
                    else Inl OtherError),
      storageWorks = True\<rparr>"

text \<open>The same, with the circuit of the aggregator open.\<close>

definition exampleEnvOpen :: Env where
  "exampleEnvOpen = exampleEnv\<lparr>gdAvailable := False\<rparr>"


text \<open>The primary catalog answers with a full file of 5 MB.\<close>

definition exampleEnvPrimaryFull :: Env where
  "exampleEnvPrimaryFull =
     exampleEnv\<lparr>necMatch := (\<lambda>i. Inr \<lparr>nec_code = 200,
                            nec_data = [\<lparr>n_url = Some (js ''http://m/full.mp3''),
                                         n_br = js ''320000'', n_size = Some 5000000\<rparr>]\<rparr>)\<rparr>"

text \<open>The primary catalog answers with the preview and the aggregator cannot resolve the
  song itself; kuwo lists two candidates with the name of the song, the first by both
  artists and the second by the first artist alone, and resolves each to its own file.\<close>

definition exampleEnvSweep :: Env where
  "exampleEnvSweep =
     exampleEnv\<lparr>gdUrl := (\<lambda>source i b.
                 if source = js ''kuwo''
                 then Inr (Some \<lparr>g_url = Some (js ''http://k/'' @ i @ js ''.mp3''), g_br = None,
                                 g_size = Some 4000\<rparr>)
                 else Inl OtherError),
       gdSearch := (\<lambda>source keyword.
                    if source = js ''kuwo''
                    then Inr [\<lparr>gs_id = js ''both'', gs_name = js ''Love Story'',
                               gs_artist = ArtistList [js ''Taylor Swift'', js ''Ed Sheeran'']\<rparr>,
                              \<lparr>gs_id = js ''first'', gs_name = js ''Love Story'',
                               gs_artist = ArtistList [js ''Taylor Swift'']\<rparr>]
                    else Inl OtherError)\<rparr>"
section \<open>Properties of the list helpers\<close>

lemma includes_iff: "includes_str s p \<longleftrightarrow> (\<exists>u v. s = u @ p @ v)"
proof (induction s)
  case Nil
  then show ?case by auto
next
  case (Cons c cs)
  have sw: "startsWith (c # cs) p \<longleftrightarrow> (\<exists>v. c # cs = p @ v)"
    unfolding startsWith_def
    by (metis append_eq_conv_conj)
  show ?case
  proof
    assume "includes_str (c # cs) p"
    then consider "startsWith (c # cs) p" | "includes_str cs p" by auto
    then show "\<exists>u v. c # cs = u @ p @ v"
    proof cases
      case 1
      then obtain v where "c # cs = p @ v" using sw by blast
      then have "c # cs = [] @ p @ v" by simp
      then show ?thesis by blast
    next
      case 2
      then obtain u v where "cs = u @ p @ v" using Cons.IH by blast
      then have "c # cs = (c # u) @ p @ v" by simp
      then show ?thesis by blast
    qed
  next
    assume "\<exists>u v. c # cs = u @ p @ v"
    then obtain u v where uv: "c # cs = u @ p @ v" by blast
    show "includes_str (c # cs) p"
    proof (cases u)
      case Nil
      with uv have "startsWith (c # cs) p" using sw by auto
      then show ?thesis by simp
    next
      case (Cons a u')
      with uv have "cs = u' @ p @ v" by simp
      then have "includes_str cs p" using Cons.IH by blast
      then show ?thesis by simp
    qed
  qed
qed

lemma includes_Nil: "includes_str s []"
  by (cases s) (simp_all add: startsWith_def)

lemma js_sort_key: "js_sort (\<lambda>a b. f a - f b) xs = sort_key f xs"
proof -
  have ins: "insort_cmp (\<lambda>a b. f a - f b) x ys = insort_key f x ys" for x ys
    by (induction ys) auto
  show ?thesis
    unfolding js_sort_def sort_key_def by (induction xs) (simp_all add: ins)
qed

lemma js_sort_desc: "js_sort (\<lambda>a b. f b - f a) xs = sort_key (\<lambda>x. - f x) xs"
  using js_sort_key [of "\<lambda>x. - f x" xs] by simp

section \<open>Binary64 arithmetic\<close>

lemma powi_pos: "0 < (2::rat) powi k"
  by (simp add: zero_less_power_int)

lemma powi_add: "(2::rat) powi (a + b) = 2 powi a * 2 powi b"
  by (simp add: power_int_add)

lemma powi_mono: "a \<le> b \<Longrightarrow> (2::rat) powi a \<le> 2 powi b"
  by (simp add: power_int_increasing)

lemma bitlen_powi:
  assumes "0 < n"
  shows "(2::rat) powi (bitlen n - 1) \<le> of_int n \<and> of_int n < (2::rat) powi (bitlen n)"
proof -
  from bitlen_bounds [OF assms] have b: "2 ^ nat (bitlen n - 1) \<le> n" "n < 2 ^ nat (bitlen n)"
    by simp_all
  have pos: "1 \<le> bitlen n" using assms by (auto simp: bitlen_alt_def)
  from b(1) have "(of_int (2 ^ nat (bitlen n - 1)) :: rat) \<le> of_int n"
    by (simp only: of_int_le_iff)
  moreover from b(2) have "(of_int n :: rat) < of_int (2 ^ nat (bitlen n))"
    by (simp only: of_int_less_iff)
  ultimately show ?thesis using pos by (simp add: power_int_def)
qed

lemma ilog2_bounds:
  assumes "0 < x"
  shows "2 powi (ilog2 x) \<le> x \<and> x < 2 powi (ilog2 x + 1)"
proof -
  obtain n d where q: "quotient_of x = (n, d)" by (cases "quotient_of x")
  then have d: "0 < d" and x: "x = of_int n / of_int d"
    by (simp_all add: quotient_of_denom_pos quotient_of_div)
  with assms have n: "0 < n" by (simp add: zero_less_divide_iff)
  define k where "k = bitlen n - bitlen d"
  note bn = bitlen_powi [OF n] and bd = bitlen_powi [OF d]
  have dpos: "(0::rat) < of_int d" using d by simp
  have lo: "2 powi (k - 1) < x"
  proof -
    have "2 powi (k - 1) * of_int d < 2 powi (k - 1) * (2 powi (bitlen d) :: rat)"
      using bd powi_pos by simp
    also have "\<dots> = 2 powi (bitlen n - 1)"
      unfolding k_def powi_add [symmetric] by simp
    also have "\<dots> \<le> of_int n" using bn by simp
    finally show ?thesis unfolding x using dpos by (simp add: pos_less_divide_eq)
  qed
  have hi: "x < 2 powi (k + 1)"
  proof -
    have "of_int n < (2 powi (bitlen n) :: rat)" using bn by simp
    also have "\<dots> = 2 powi (k + 1) * 2 powi (bitlen d - 1)"
      unfolding k_def powi_add [symmetric] by simp
    also have "\<dots> \<le> 2 powi (k + 1) * of_int d"
      using bd powi_pos by simp
    finally show ?thesis unfolding x using dpos by (simp add: pos_divide_less_eq)
  qed
  have e: "ilog2 x = (if 2 powi k \<le> x then k else k - 1)"
    by (simp add: ilog2_def q k_def Let_def)
  show ?thesis
  proof (cases "2 powi k \<le> x")
    case True
    with e hi show ?thesis by simp
  next
    case False
    with e lo show ?thesis by simp
  qed
qed

lemma roundHalfEven_bounds:
  "of_int (roundHalfEven q) \<le> q + 1 / 2 \<and> q - 1 / 2 \<le> of_int (roundHalfEven q)
   \<and> \<lfloor>q\<rfloor> \<le> roundHalfEven q \<and> roundHalfEven q \<le> \<lfloor>q\<rfloor> + 1"
proof -
  define f where "f = \<lfloor>q\<rfloor>"
  have b: "of_int f \<le> q" "q < of_int f + 1" unfolding f_def by linarith+
  have e: "roundHalfEven q =
     (if q - of_int f < 1 / 2 then f else if 1 / 2 < q - of_int f then f + 1
      else if even f then f else f + 1)"
    by (simp add: roundHalfEven_def Let_def f_def)
  consider "q - of_int f < 1 / 2" | "1 / 2 < q - of_int f" | "q - of_int f = 1 / 2"
    by linarith
  then show ?thesis
  proof cases
    case 1
    with e have "roundHalfEven q = f" by simp
    with 1 b show ?thesis unfolding f_def [symmetric] by simp
  next
    case 2
    with e have "roundHalfEven q = f + 1" by simp
    with 2 b show ?thesis unfolding f_def [symmetric] by simp
  next
    case 3
    with e have "roundHalfEven q = f \<or> roundHalfEven q = f + 1" by simp
    with 3 b show ?thesis unfolding f_def [symmetric] by auto
  qed
qed

lemma round64_zero [simp]: "round64 0 = 0"
  by (simp add: round64_def)

text \<open>The significand of a rounded number lies between \<open>2\<^sup>5\<^sup>2\<close> and \<open>2\<^sup>5\<^sup>3\<close>.\<close>

lemma round64_pos_bounds:
  assumes "0 < x"
  shows "2 powi (ilog2 x) \<le> round64 x \<and> round64 x \<le> 2 powi (ilog2 x + 1)
    \<and> \<bar>round64 x - x\<bar> \<le> 2 powi (ilog2 x - 53)"
proof -
  define e where "e = ilog2 x"
  define s :: rat where "s = 2 powi (e - 52)"
  define m where "m = roundHalfEven (x / s)"
  have spos: "0 < s" unfolding s_def by (rule powi_pos)
  have r: "round64 x = of_int m * s"
    using assms by (simp add: round64_def Let_def m_def s_def e_def)
  from ilog2_bounds [OF assms] have b: "2 powi e \<le> x" "x < 2 powi (e + 1)"
    unfolding e_def by simp_all
  have p52: "2 powi e = 2 ^ 52 * s"
    unfolding s_def using powi_add [of 52 "e - 52"] by simp
  have p53: "2 powi (e + 1) = 2 ^ 53 * s"
    unfolding s_def using powi_add [of 53 "e - 52"] by (simp add: add.commute)
  have half: "2 powi (e - 53) = s / 2"
    unfolding s_def using powi_add [of "-1" "e - 52"] by (simp add: power_int_minus)
  from b(1) have q1: "2 ^ 52 \<le> x / s" unfolding p52 using spos by (simp add: pos_le_divide_eq)
  from b(2) have q2: "x / s < 2 ^ 53" unfolding p53 using spos by (simp add: pos_divide_less_eq)
  note rb = roundHalfEven_bounds [of "x / s"]
  have f1: "2 ^ 52 \<le> \<lfloor>x / s\<rfloor>" using q1 by (simp add: le_floor_iff)
  have f2: "\<lfloor>x / s\<rfloor> < 2 ^ 53" using q2 by (simp add: floor_less_iff)
  from rb f1 have m1: "2 ^ 52 \<le> m" unfolding m_def by linarith
  from rb f2 have m2: "m \<le> 2 ^ 53" unfolding m_def by linarith
  from m1 have "(2 ^ 52 :: rat) \<le> of_int m"
    by (metis of_int_le_iff of_int_numeral of_int_power)
  then have lo: "2 powi e \<le> of_int m * s" unfolding p52 using spos by simp
  from m2 have "(of_int m :: rat) \<le> 2 ^ 53"
    by (metis of_int_le_iff of_int_numeral of_int_power)
  then have hi: "of_int m * s \<le> 2 powi (e + 1)" unfolding p53 using spos by simp
  have "\<bar>of_int m - x / s\<bar> \<le> 1 / 2" using rb unfolding m_def by linarith
  then have "\<bar>of_int m - x / s\<bar> * s \<le> 1 / 2 * s" using spos by simp
  moreover have "\<bar>of_int m - x / s\<bar> * s = \<bar>of_int m * s - x\<bar>"
  proof -
    have "of_int m * s - x = (of_int m - x / s) * s"
      using spos by (simp add: left_diff_distrib)
    then have "\<bar>of_int m * s - x\<bar> = \<bar>of_int m - x / s\<bar> * \<bar>s\<bar>"
      by (simp only: abs_mult)
    then show ?thesis using spos by (simp only: abs_of_pos)
  qed
  ultimately have err: "\<bar>of_int m * s - x\<bar> \<le> 2 powi (e - 53)" unfolding half by simp
  from lo hi err show ?thesis unfolding r e_def by simp
qed

lemma round64_neg: "round64 (- x) = - round64 x"
  by (simp add: round64_def Let_def)

lemma round64_pos: "0 < x \<Longrightarrow> 0 < round64 x"
  using round64_pos_bounds [of x] powi_pos [of "ilog2 x"] by linarith

lemma round64_sign:
  "(round64 x \<le> 0 \<longleftrightarrow> x \<le> 0) \<and> (0 \<le> round64 x \<longleftrightarrow> 0 \<le> x) \<and> (round64 x = 0 \<longleftrightarrow> x = 0)"
proof -
  consider "x = 0" | "0 < x" | "x < 0" by linarith
  then show ?thesis
  proof cases
    case 1
    then show ?thesis by simp
  next
    case 2
    with round64_pos [of x] show ?thesis by auto
  next
    case 3
    then have "0 < round64 (- x)" using round64_pos [of "- x"] by simp
    then have "round64 x < 0" by (simp add: round64_neg)
    with 3 show ?thesis by auto
  qed
qed

lemma round64_unit:
  assumes "0 \<le> x" and "x \<le> 1"
  shows "0 \<le> round64 x \<and> round64 x \<le> 1"
proof (cases "x = 0 \<or> x = 1")
  case True
  then show ?thesis
  proof
    assume "x = 0" then show ?thesis by simp
  next
    assume x: "x = 1"
    have "round64 1 = 1" by code_simp
    then show ?thesis by (simp add: x)
  qed
next
  case False
  with assms have x: "0 < x" "x < 1" by simp_all
  from ilog2_bounds [OF x(1)] x(2) have lt: "2 powi (ilog2 x) < (1::rat)" by simp
  have "ilog2 x < 0"
  proof (rule ccontr)
    assume "\<not> ilog2 x < 0"
    then have "(2::rat) powi 0 \<le> 2 powi (ilog2 x)" by (intro powi_mono) simp
    with lt show False by simp
  qed
  then have "(2::rat) powi (ilog2 x + 1) \<le> 2 powi 0" by (intro powi_mono) simp
  with round64_pos_bounds [OF x(1)] round64_pos [OF x(1)] show ?thesis by simp
qed

section \<open>Similarity matcher\<close>

lemma codePoints_Nil_iff: "codePoints s = [] \<longleftrightarrow> s = []"
  by (cases s rule: codePoints.cases) auto

lemma jaccard_inter:
  "length (filter (\<lambda>x. x \<in> set s2) (remdups s1)) = card (set s1 \<inter> set s2)"
proof -
  have "distinct (filter (\<lambda>x. x \<in> set s2) (remdups s1))" by simp
  moreover have "set (filter (\<lambda>x. x \<in> set s2) (remdups s1)) = set s1 \<inter> set s2"
    by auto
  ultimately show ?thesis by (metis distinct_card)
qed

lemma jaccard_union:
  "length (remdups (remdups s1 @ remdups s2)) = card (set s1 \<union> set s2)"
proof -
  have "set (remdups (remdups s1 @ remdups s2)) = set s1 \<union> set s2" by simp
  then show ?thesis by (metis distinct_card distinct_remdups)
qed

lemma calculateSimilarity_jaccard:
  assumes "normalize_str lower a \<noteq> normalize_str lower b"
    and "\<not> includes_str (normalize_str lower a) (normalize_str lower b)"
    and "\<not> includes_str (normalize_str lower b) (normalize_str lower a)"
  shows "calculateSimilarity lower a b =
           fdiv (of_nat (card (set (codePoints (normalize_str lower a))
                                \<inter> set (codePoints (normalize_str lower b)))))
                (of_nat (card (set (codePoints (normalize_str lower a))
                                \<union> set (codePoints (normalize_str lower b)))))"
  using assms by (simp add: calculateSimilarity_def Let_def jaccard_inter jaccard_union)

lemma jaccard_range:
  assumes "s1 \<noteq> []"
  shows "0 \<le> (of_nat (card (set s1 \<inter> set s2)) :: rat) / of_nat (card (set s1 \<union> set s2))"
    and "(of_nat (card (set s1 \<inter> set s2)) :: rat) / of_nat (card (set s1 \<union> set s2)) \<le> 1"
proof -
  have le: "card (set s1 \<inter> set s2) \<le> card (set s1 \<union> set s2)"
    by (rule card_mono) auto
  have pos: "0 < card (set s1 \<union> set s2)"
    using assms by (simp add: card_gt_0_iff)
  show "0 \<le> (of_nat (card (set s1 \<inter> set s2)) :: rat) / of_nat (card (set s1 \<union> set s2))"
    by simp
  show "(of_nat (card (set s1 \<inter> set s2)) :: rat) / of_nat (card (set s1 \<union> set s2)) \<le> 1"
    using le pos by (simp add: divide_le_eq)
qed

lemma calculateSimilarity_range:
  "0 \<le> calculateSimilarity lower a b \<and> calculateSimilarity lower a b \<le> 1"
proof (cases "normalize_str lower a = normalize_str lower b
    \<or> includes_str (normalize_str lower a) (normalize_str lower b)
    \<or> includes_str (normalize_str lower b) (normalize_str lower a)")
  case True
  have "0 \<le> round64 (4 / 5) \<and> round64 (4 / 5) \<le> 1"
    by (rule round64_unit) simp_all
  with True show ?thesis by (auto simp: calculateSimilarity_def Let_def)
next
  case False
  then have "normalize_str lower a \<noteq> []"
    using includes_Nil [of "normalize_str lower b"] by auto
  then have ne: "codePoints (normalize_str lower a) \<noteq> []"
    by (simp add: codePoints_Nil_iff)
  from False have eq: "calculateSimilarity lower a b =
           fdiv (of_nat (card (set (codePoints (normalize_str lower a))
                                \<inter> set (codePoints (normalize_str lower b)))))
                (of_nat (card (set (codePoints (normalize_str lower a))
                                \<union> set (codePoints (normalize_str lower b)))))"
    by (simp add: calculateSimilarity_jaccard)
  show ?thesis
    unfolding eq fdiv_def
    using jaccard_range [OF ne, of "codePoints (normalize_str lower b)"]
    by (intro round64_unit) simp_all
qed

text \<open>
  Claim C9, as the source has it. For every case mapping of the runtime and all strings
  \<open>a\<close> and \<open>b\<close>, \<open>calculateSimilarity a b\<close> lies between 0 and 1. The normal form of a
  string is its lower case without white space, hyphen, underscore, round and square
  brackets and full-width round brackets; any other punctuation stays. Equal normal forms
  score 1; otherwise, when one normal form contains the other, the score is the double
  0.8; otherwise the score is the number of code points that the two normal forms share
  divided, as doubles are, by the number of code points that occur in either, which is 0
  when they share none. \<open>Love Story\<close> against itself scores 1, and \<open>abc\<close> against
  \<open>xyz\<close> scores 0 when the case mapping leaves both as they are.
\<close>

theorem C9_calculateSimilarity:
  "0 \<le> calculateSimilarity lower a b \<and> calculateSimilarity lower a b \<le> 1
   \<and> normalize_str lower a = filter (\<lambda>c. \<not> stripped c) (lower a)
   \<and> (stripped c \<longleftrightarrow> isWhiteSpace c \<or> c = 45 \<or> c = 95 \<or> c = 40 \<or> c = 41 \<or> c = 91 \<or> c = 93
                      \<or> c = 65288 \<or> c = 65289)
   \<and> (normalize_str lower a = normalize_str lower b \<longrightarrow> calculateSimilarity lower a b = 1)
   \<and> (normalize_str lower a \<noteq> normalize_str lower b
        \<and> ((\<exists>u v. normalize_str lower a = u @ normalize_str lower b @ v)
           \<or> (\<exists>u v. normalize_str lower b = u @ normalize_str lower a @ v))
        \<longrightarrow> calculateSimilarity lower a b = round64 (4 / 5))
   \<and> round64 (4 / 5) = 3602879701896397 / 4503599627370496
   \<and> (normalize_str lower a \<noteq> normalize_str lower b
        \<and> \<not> (\<exists>u v. normalize_str lower a = u @ normalize_str lower b @ v)
        \<and> \<not> (\<exists>u v. normalize_str lower b = u @ normalize_str lower a @ v)
        \<longrightarrow> calculateSimilarity lower a b =
              round64 (of_nat (card (set (codePoints (normalize_str lower a))
                                      \<inter> set (codePoints (normalize_str lower b))))
                       / of_nat (card (set (codePoints (normalize_str lower a))
                                        \<union> set (codePoints (normalize_str lower b)))))
            \<and> (set (codePoints (normalize_str lower a))
                  \<inter> set (codePoints (normalize_str lower b)) = {}
                \<longrightarrow> calculateSimilarity lower a b = 0))
   \<and> calculateSimilarity lower (js ''Love Story'') (js ''Love Story'') = 1
   \<and> (lower (js ''abc'') = js ''abc'' \<and> lower (js ''xyz'') = js ''xyz''
        \<longrightarrow> calculateSimilarity lower (js ''abc'') (js ''xyz'') = 0)"
proof -
  have r: "0 \<le> calculateSimilarity lower a b \<and> calculateSimilarity lower a b \<le> 1"
    by (rule calculateSimilarity_range)
  have n: "normalize_str lower a = filter (\<lambda>c. \<not> stripped c) (lower a)"
    by (simp add: normalize_str_def)
  have s: "stripped c \<longleftrightarrow> isWhiteSpace c \<or> c = 45 \<or> c = 95 \<or> c = 40 \<or> c = 41 \<or> c = 91 \<or> c = 93
                      \<or> c = 65288 \<or> c = 65289"
    by (auto simp: stripped_def)
  have e: "normalize_str lower a = normalize_str lower b \<longrightarrow> calculateSimilarity lower a b = 1"
    by (simp add: calculateSimilarity_def)
  have c: "normalize_str lower a \<noteq> normalize_str lower b
        \<and> ((\<exists>u v. normalize_str lower a = u @ normalize_str lower b @ v)
           \<or> (\<exists>u v. normalize_str lower b = u @ normalize_str lower a @ v))
        \<longrightarrow> calculateSimilarity lower a b = round64 (4 / 5)"
    unfolding includes_iff [symmetric] by (simp add: calculateSimilarity_def Let_def)
  have d: "round64 (4 / 5) = 3602879701896397 / 4503599627370496"
    by code_simp
  have j: "normalize_str lower a \<noteq> normalize_str lower b
        \<and> \<not> (\<exists>u v. normalize_str lower a = u @ normalize_str lower b @ v)
        \<and> \<not> (\<exists>u v. normalize_str lower b = u @ normalize_str lower a @ v)
        \<longrightarrow> calculateSimilarity lower a b =
              round64 (of_nat (card (set (codePoints (normalize_str lower a))
                                      \<inter> set (codePoints (normalize_str lower b))))
                       / of_nat (card (set (codePoints (normalize_str lower a))
                                        \<union> set (codePoints (normalize_str lower b)))))
            \<and> (set (codePoints (normalize_str lower a))
                  \<inter> set (codePoints (normalize_str lower b)) = {}
                \<longrightarrow> calculateSimilarity lower a b = 0)"
    unfolding includes_iff [symmetric]
    by (simp add: calculateSimilarity_jaccard fdiv_def)
  have l: "calculateSimilarity lower (js ''Love Story'') (js ''Love Story'') = 1"
    by (simp add: calculateSimilarity_def)
  have x: "lower (js ''abc'') = js ''abc'' \<and> lower (js ''xyz'') = js ''xyz''
        \<longrightarrow> calculateSimilarity lower (js ''abc'') (js ''xyz'') = 0"
  proof
    assume h: "lower (js ''abc'') = js ''abc'' \<and> lower (js ''xyz'') = js ''xyz''"
    have "calculateSimilarity id (js ''abc'') (js ''xyz'') = 0" by code_simp
    with h show "calculateSimilarity lower (js ''abc'') (js ''xyz'') = 0"
      by (simp add: calculateSimilarity_def normalize_str_def)
  qed
  from r n s e c d j l x show ?thesis by blast
qed

theorem C9_calculateSimilarity_witness:
  "normalize_str lowerLatin1 (js ''Love Story'') = normalize_str lowerLatin1 (js ''love-story'')
   \<and> calculateSimilarity lowerLatin1 (js ''Love Story'') (js ''love-story'') = 1
   \<and> normalize_str lowerLatin1 (js ''Love Story (Live)'')
       = js ''love'' @ normalize_str lowerLatin1 (js ''Story (Live)'') @ []
   \<and> calculateSimilarity lowerLatin1 (js ''Love Story (Live)'') (js ''Story (Live)'')
       = 3602879701896397 / 4503599627370496
   \<and> lowerLatin1 (js ''abc'') = js ''abc'' \<and> lowerLatin1 (js ''xyz'') = js ''xyz''
   \<and> calculateSimilarity lowerLatin1 (js ''abc'') (js ''xyz'') = 0
   \<and> calculateSimilarity lowerLatin1 (js ''abcd'') (js ''bcde'') = round64 (3 / 5)
   \<and> calculateSimilarity lowerLatin1 [55357, 56832, 55357, 56833] [55357, 56834, 55357, 56835] = 0"
proof -
  note T = C9_calculateSimilarity [where lower = lowerLatin1]
  have n1: "normalize_str lowerLatin1 (js ''Love Story'') = normalize_str lowerLatin1 (js ''love-story'')"
    by code_simp
  have n2: "normalize_str lowerLatin1 (js ''Love Story (Live)'')
       = js ''love'' @ normalize_str lowerLatin1 (js ''Story (Live)'') @ []"
    by code_simp
  have n2': "normalize_str lowerLatin1 (js ''Love Story (Live)'')
       \<noteq> normalize_str lowerLatin1 (js ''Story (Live)'')"
    by code_simp
  have n3: "lowerLatin1 (js ''abc'') = js ''abc'' \<and> lowerLatin1 (js ''xyz'') = js ''xyz''"
    by code_simp
  have n4: "calculateSimilarity lowerLatin1 (js ''abcd'') (js ''bcde'') = round64 (3 / 5)"
    by code_simp
  have n5: "calculateSimilarity lowerLatin1 [55357, 56832, 55357, 56833] [55357, 56834, 55357, 56835] = 0"
    by code_simp
  from n1 have a: "calculateSimilarity lowerLatin1 (js ''Love Story'') (js ''love-story'') = 1"
    using T [of "js ''Love Story''" "js ''love-story''" 0] by blast
  from n2 n2' have b: "calculateSimilarity lowerLatin1 (js ''Love Story (Live)'') (js ''Story (Live)'')
      = 3602879701896397 / 4503599627370496"
    using T [of "js ''Love Story (Live)''" "js ''Story (Live)''" 0] by metis
  from n3 have c: "calculateSimilarity lowerLatin1 (js ''abc'') (js ''xyz'') = 0"
    using T [of "js ''abc''" "js ''xyz''" 0] by blast
  from n1 a n2 b n3 c n4 n5 show ?thesis by blast
qed

text \<open>
  The claim as it is written fails: with punctuation removed, as the claim has it, the
  two titles have the same normal form and would score 1; the source keeps the full stop,
  so neither normal form contains the other and the score is 10/11 as a double.
\<close>

theorem C9_counterexample:
  "normalize_claimed lowerLatin1 (js ''Mr. Brightside'')
     = normalize_claimed lowerLatin1 (js ''Mr Brightside'')
   \<and> normalize_str lowerLatin1 (js ''Mr. Brightside'') = js ''mr.brightside''
   \<and> normalize_str lowerLatin1 (js ''Mr Brightside'') = js ''mrbrightside''
   \<and> calculateSimilarity lowerLatin1 (js ''Mr. Brightside'') (js ''Mr Brightside'')
     = round64 (10 / 11)
   \<and> round64 (10 / 11) < 1"
  by code_simp

section \<open>Source ranking\<close>

lemma getSortedFallbackSources_sort_key:
  "getSortedFallbackSources cnt x =
     sort_key (\<lambda>s. - getCount cnt s) (filter (\<lambda>s. s \<noteq> x) FALLBACK_SOURCES)"
  unfolding getSortedFallbackSources_def by (rule js_sort_desc)

lemma FALLBACK_SOURCES_distinct: "distinct FALLBACK_SOURCES"
  by code_simp

lemma sorted_wrt_desc_key:
  "sorted (map (\<lambda>s. - f s) xs) \<Longrightarrow> sorted_wrt (\<lambda>a b. (f b :: rat) \<le> f a) xs"
  by (induction xs) auto

text \<open>
  Claim C7. For every excluded source \<open>x\<close>, \<open>getSortedFallbackSources\<close> returns the
  sources of the fixed roster kuwo, kugou, migu, tencent, ximalaya, joox other than \<open>x\<close>,
  each once and never \<open>x\<close>, in descending order of recorded success count, and sources
  with the same count keep the order they have in the roster.
\<close>

theorem C7_getSortedFallbackSources:
  "FALLBACK_SOURCES =
     [js ''kuwo'', js ''kugou'', js ''migu'', js ''tencent'', js ''ximalaya'', js ''joox'']
   \<and> x \<notin> set (getSortedFallbackSources cnt x)
   \<and> set (getSortedFallbackSources cnt x) = set FALLBACK_SOURCES - {x}
   \<and> distinct (getSortedFallbackSources cnt x)
   \<and> sorted_wrt (\<lambda>a b. getCount cnt b \<le> getCount cnt a) (getSortedFallbackSources cnt x)
   \<and> (\<forall>k. filter (\<lambda>s. getCount cnt s = k) (getSortedFallbackSources cnt x) =
            filter (\<lambda>s. getCount cnt s = k) (filter (\<lambda>s. s \<noteq> x) FALLBACK_SOURCES))"
proof -
  let ?r = "getSortedFallbackSources cnt x"
  let ?base = "filter (\<lambda>s. s \<noteq> x) FALLBACK_SOURCES"
  have eq: "?r = sort_key (\<lambda>s. - getCount cnt s) ?base"
    by (rule getSortedFallbackSources_sort_key)
  have s: "set ?r = set FALLBACK_SOURCES - {x}"
    unfolding eq by auto
  have d: "distinct ?r"
    unfolding eq using FALLBACK_SOURCES_distinct by simp
  have o: "sorted_wrt (\<lambda>a b. getCount cnt b \<le> getCount cnt a) ?r"
    unfolding eq by (rule sorted_wrt_desc_key) simp
  have st: "filter (\<lambda>s. getCount cnt s = k) ?r = filter (\<lambda>s. getCount cnt s = k) ?base" for k
  proof -
    have "filter (\<lambda>s. - getCount cnt s = - k) (sort_key (\<lambda>s. - getCount cnt s) ?base)
          = filter (\<lambda>s. - getCount cnt s = - k) ?base"
      by (rule sort_key_stable)
    then show ?thesis unfolding eq by simp
  qed
  from s d o st show ?thesis by (simp add: FALLBACK_SOURCES_def)
qed

theorem C7_getSortedFallbackSources_witness:
  "getSortedFallbackSources [(js ''joox'', 3), (js ''kuwo'', 1), (js ''migu'', 3)] (js ''kugou'')
     = [js ''migu'', js ''joox'', js ''kuwo'', js ''tencent'', js ''ximalaya'']
   \<and> js ''kugou'' \<notin> set (getSortedFallbackSources
          [(js ''joox'', 3), (js ''kuwo'', 1), (js ''migu'', 3)] (js ''kugou''))
   \<and> filter (\<lambda>s. getCount [(js ''joox'', 3), (js ''kuwo'', 1), (js ''migu'', 3)] s = 3)
        (getSortedFallbackSources [(js ''joox'', 3), (js ''kuwo'', 1), (js ''migu'', 3)] (js ''kugou''))
     = [js ''migu'', js ''joox'']"
proof -
  have v: "getSortedFallbackSources [(js ''joox'', 3), (js ''kuwo'', 1), (js ''migu'', 3)] (js ''kugou'')
     = [js ''migu'', js ''joox'', js ''kuwo'', js ''tencent'', js ''ximalaya'']"
    by code_simp
  have f: "filter (\<lambda>s. getCount [(js ''joox'', 3), (js ''kuwo'', 1), (js ''migu'', 3)] s = 3)
        (filter (\<lambda>s. s \<noteq> js ''kugou'') FALLBACK_SOURCES) = [js ''migu'', js ''joox'']"
    by code_simp
  from v f show ?thesis
    using C7_getSortedFallbackSources
      [of "js ''kugou''" "[(js ''joox'', 3), (js ''kuwo'', 1), (js ''migu'', 3)]"]
    by metis
qed

section \<open>Lyric parser\<close>

lemma tagAt_Some:
  assumes "tagAt s = Some n"
  shows "(n = 10 \<or> n = 11) \<and> n \<le> length s \<and> tagAt (take n s) = Some n"
proof -
  from assms have base: "10 \<le> length s" "s ! 0 = 91" "isDigit (s ! 1)" "isDigit (s ! 2)"
    "s ! 3 = 58" "isDigit (s ! 4)" "isDigit (s ! 5)" "s ! 6 = 46" "isDigit (s ! 7)" "isDigit (s ! 8)"
    by (auto simp: tagAt_def split: if_splits)
  show ?thesis
  proof (cases "11 \<le> length s \<and> isDigit (s ! 9) \<and> s ! 10 = 93")
    case True
    with assms base have n: "n = 11" by (simp add: tagAt_def)
    from True base show ?thesis unfolding n by (simp add: tagAt_def)
  next
    case False
    with assms base have n: "n = 10" and c: "s ! 9 = 93"
      by (auto simp: tagAt_def split: if_splits)
    from base c show ?thesis unfolding n by (simp add: tagAt_def)
  qed
qed

declare scanTags.simps [simp del] removeTags.simps [simp del]

lemma scanTags_Nil [simp]: "scanTags [] = []"
  by (simp add: scanTags.simps [of "[]"])

lemma removeTags_Nil [simp]: "removeTags [] = []"
  by (simp add: removeTags.simps [of "[]"])

lemma scanTags_tag: "t \<in> set (scanTags s) \<Longrightarrow> tagAt t = Some (length t)"
proof (induction s rule: scanTags.induct)
  case (1 s)
  show ?case
  proof (cases "s = []")
    case True
    with "1.prems" show ?thesis by simp
  next
    case ne: False
    show ?thesis
    proof (cases "tagAt s")
      case None
      with ne "1.prems" have "t \<in> set (scanTags (tl s))"
        by (simp add: scanTags.simps [of s])
      with "1.IH" ne None show ?thesis by simp
    next
      case (Some n)
      with ne "1.prems" consider "t = take n s" | "t \<in> set (scanTags (drop n s))"
        by (auto simp: scanTags.simps [of s])
      then show ?thesis
      proof cases
        case 1
        with tagAt_Some [OF Some] show ?thesis by auto
      next
        case 2
        with "1.IH" ne Some show ?thesis by simp
      qed
    qed
  qed
qed

lemma firstTag_tag:
  assumes "tagAt t = Some (length t)"
  shows "firstTag t = Some t"
proof -
  from tagAt_Some [OF assms] have "t \<noteq> []" by auto
  with assms have "scanTags t = [t]"
    by (simp add: scanTags.simps [of t] scanTags.simps [of "[]"])
  then show ?thesis by (simp add: firstTag_def)
qed

text \<open>The branch of \<open>parseLine\<close> for a tag that does not match is never taken.\<close>

lemma parseLine_eq:
  "parseLine line =
     (if trim (removeTags line) = [] then []
      else map (\<lambda>tag. (tagTime tag, trim (removeTags line))) (scanTags line))"
proof -
  have "map (\<lambda>tag. case firstTag tag of None \<Rightarrow> (0, []) | Some mt \<Rightarrow> (tagTime mt, x)) (scanTags line)
        = map (\<lambda>tag. (tagTime tag, x)) (scanTags line)" for x :: jsstring
    by (rule map_cong) (simp_all add: firstTag_tag scanTags_tag)
  then show ?thesis by (simp add: parseLine_def Let_def)
qed

lemma length_parseLine:
  "length (parseLine line) =
     (if trim (removeTags line) = [] then 0 else length (scanTags line))"
  by (simp add: parseLine_eq)

lemma length_parseAll:
  "length (parseAll s) =
     (\<Sum>line\<leftarrow>splitLines s. if trim (removeTags line) = [] then 0 else length (scanTags line))"
  by (simp add: parseAll_def length_concat comp_def length_parseLine)

lemma findIndex_None: "findIndex P xs = None \<longleftrightarrow> (\<forall>x\<in>set xs. \<not> P x)"
  by (induction xs) auto

lemma findIndex_Some:
  "findIndex P xs = Some i \<longleftrightarrow> i < length xs \<and> P (xs ! i) \<and> (\<forall>j<i. \<not> P (xs ! j))"
proof (induction xs arbitrary: i)
  case Nil
  then show ?case by simp
next
  case (Cons x xs)
  show ?case
  proof (cases "P x")
    case True
    then show ?thesis by (cases i) auto
  next
    case False
    show ?thesis
    proof (cases i)
      case 0
      with False show ?thesis by auto
    next
      case (Suc k)
      have "(\<forall>j<Suc k. \<not> P ((x # xs) ! j)) \<longleftrightarrow> (\<forall>j<k. \<not> P (xs ! j))"
        using False by (auto simp: less_Suc_eq_0_disj)
      with False Suc Cons.IH [of k] show ?thesis by auto
    qed
  qed
qed

lemma mergeTranslation_shape:
  "length (mergeTranslation d tp) = length d
   \<and> map time (mergeTranslation d tp) = map time d
   \<and> map ltext (mergeTranslation d tp) = map ltext d"
proof (cases "findIndex (\<lambda>l. withinTolerance (time l) (fst tp)) d")
  case None
  then show ?thesis by (simp add: mergeTranslation_def)
next
  case (Some i)
  then have i: "i < length d" by (simp add: findIndex_Some)
  from Some have eq: "mergeTranslation d tp = d[i := (d ! i)\<lparr>ttext := Some (snd tp)\<rparr>]"
    by (simp add: mergeTranslation_def)
  show ?thesis unfolding eq using i by (simp add: map_update list_update_same_conv)
qed

lemma foldl_mergeTranslation_shape:
  "length (foldl mergeTranslation d tps) = length d
   \<and> map time (foldl mergeTranslation d tps) = map time d
   \<and> map ltext (foldl mergeTranslation d tps) = map ltext d"
proof (induction tps arbitrary: d)
  case Nil
  then show ?case by simp
next
  case (Cons tp tps)
  show ?case using Cons.IH [of "mergeTranslation d tp"] mergeTranslation_shape [of d tp]
    by simp
qed

lemma parseLyrics_None:
  "parseLyrics lrc None =
     sort_key time (map (\<lambda>p. \<lparr>time = fst p, ltext = snd p, ttext = None\<rparr>) (parseAll lrc))"
proof (cases "lrc = []")
  case True
  then show ?thesis
    by (simp add: parseLyrics_def parseAll_def parseLine_def scanTags.simps [of "[]"])
next
  case False
  then show ?thesis by (simp add: parseLyrics_def js_sort_key)
qed

lemma parseLyrics_Some:
  "parseLyrics lrc (Some t) =
     (if lrc = [] \<or> t = [] then parseLyrics lrc None
      else foldl mergeTranslation (parseLyrics lrc None) (parseAll t))"
  by (simp add: parseLyrics_def)

lemma parseLyrics_shape:
  "length (parseLyrics lrc tly) = length (parseLyrics lrc None)
   \<and> map time (parseLyrics lrc tly) = map time (parseLyrics lrc None)
   \<and> map ltext (parseLyrics lrc tly) = map ltext (parseLyrics lrc None)"
proof (cases tly)
  case None
  then show ?thesis by simp
next
  case (Some t)
  show ?thesis unfolding Some parseLyrics_Some
    using foldl_mergeTranslation_shape [of "parseLyrics lrc None" "parseAll t"] by simp
qed

lemma tagTime_two_digits:
  "tagTime [91, a, b, 58, c, d, 46, e, f, 93] =
     of_int ((10 * (a - 48) + (b - 48)) * 60 + (10 * (c - 48) + (d - 48)))
     + of_int ((10 * (e - 48) + (f - 48)) * 10) / 1000"
  by (simp add: tagTime_def parseInt_def Let_def)

lemma tagTime_three_digits:
  "tagTime [91, a, b, 58, c, d, 46, e, f, g, 93] =
     of_int ((10 * (a - 48) + (b - 48)) * 60 + (10 * (c - 48) + (d - 48)))
     + of_int (10 * (10 * (e - 48) + (f - 48)) + (g - 48)) / 1000"
  by (simp add: tagTime_def parseInt_def Let_def)

lemma parseLyrics_None_props:
  "mset (map (\<lambda>l. (time l, ltext l)) (parseLyrics lrc None)) = mset (parseAll lrc)
   \<and> sorted (map time (parseLyrics lrc None))
   \<and> length (parseLyrics lrc None) = length (parseAll lrc)"
proof -
  let ?mk = "\<lambda>p. \<lparr>time = fst p, ltext = snd p, ttext = None\<rparr>"
  have "mset (map (\<lambda>l. (time l, ltext l)) (parseLyrics lrc None))
        = image_mset (\<lambda>l. (time l, ltext l)) (mset (map ?mk (parseAll lrc)))"
    unfolding parseLyrics_None by simp
  also have "\<dots> = mset (parseAll lrc)"
    by (simp add: image_mset.compositionality comp_def)
  finally show ?thesis by (simp add: parseLyrics_None)
qed

text \<open>
  Claim C3, as the source has it. \<open>parseLyrics\<close> returns one lyric line for every
  well-formed tag that stands on a line whose text, with the tags removed and trimmed, is
  not empty; a line left with no text gives nothing, whatever tags it carries. The
  result is sorted by non-decreasing time, with or without a translation. Every tag of a
  line gives a lyric line with the text of that line, and the lyric lines are those pairs
  of time and text, each as often as it is parsed. The time of a tag is minutes times 60
  plus seconds plus the fraction in thousandths, a fraction of two digits being
  multiplied by 10 first.
\<close>

theorem C3_parseLyrics:
  "length (parseLyrics lrc tly) =
     (\<Sum>line\<leftarrow>splitLines lrc. if trim (removeTags line) = [] then 0 else length (scanTags line))
   \<and> sorted (map time (parseLyrics lrc tly))
   \<and> mset (map (\<lambda>l. (time l, ltext l)) (parseLyrics lrc tly))
       = mset (concat (map parseLine (splitLines lrc)))
   \<and> parseLine line =
       (if trim (removeTags line) = [] then []
        else map (\<lambda>tag. (tagTime tag, trim (removeTags line))) (scanTags line))
   \<and> tagTime [91, a, b, 58, c, d, 46, e, f, 93] =
       of_int ((10 * (a - 48) + (b - 48)) * 60 + (10 * (c - 48) + (d - 48)))
       + of_int ((10 * (e - 48) + (f - 48)) * 10) / 1000
   \<and> tagTime [91, a, b, 58, c, d, 46, e, f, g, 93] =
       of_int ((10 * (a - 48) + (b - 48)) * 60 + (10 * (c - 48) + (d - 48)))
       + of_int (10 * (10 * (e - 48) + (f - 48)) + (g - 48)) / 1000"
proof -
  note sh = parseLyrics_shape [of lrc tly]
  note np = parseLyrics_None_props [of lrc]
  have len: "length (parseLyrics lrc tly) =
     (\<Sum>line\<leftarrow>splitLines lrc. if trim (removeTags line) = [] then 0 else length (scanTags line))"
    using sh np by (simp add: length_parseAll)
  have srt: "sorted (map time (parseLyrics lrc tly))"
    using sh np by simp
  have "map (\<lambda>l. (time l, ltext l)) (parseLyrics lrc tly)
        = zip (map time (parseLyrics lrc tly)) (map ltext (parseLyrics lrc tly))"
    by (simp add: zip_map_map map_replicate_const [symmetric] zip_same_conv_map)
  also have "\<dots> = zip (map time (parseLyrics lrc None)) (map ltext (parseLyrics lrc None))"
    using sh by simp
  also have "\<dots> = map (\<lambda>l. (time l, ltext l)) (parseLyrics lrc None)"
    by (simp add: zip_map_map zip_same_conv_map)
  finally have perm: "mset (map (\<lambda>l. (time l, ltext l)) (parseLyrics lrc tly))
       = mset (concat (map parseLine (splitLines lrc)))"
    using np by (simp add: parseAll_def)
  from len srt perm show ?thesis
    using parseLine_eq [of line] tagTime_two_digits [of a b c d e f]
      tagTime_three_digits [of a b c d e f g]
    by blast
qed

theorem C3_parseLyrics_witness:
  "length (parseLyrics (js ''[00:12.34][01:02.345]hello'' @ [10] @ js ''[00:05.00]'' @ [10]
             @ js ''[00:01.50] world'') None) = 3
   \<and> map time (parseLyrics (js ''[00:12.34][01:02.345]hello'' @ [10] @ js ''[00:05.00]'' @ [10]
             @ js ''[00:01.50] world'') None) = [3 / 2, 617 / 50, 12469 / 200]
   \<and> sorted (map time (parseLyrics (js ''[00:12.34][01:02.345]hello'' @ [10] @ js ''[00:05.00]''
             @ [10] @ js ''[00:01.50] world'') None))
   \<and> parseLine (js ''[00:12.34][01:02.345]hello'')
       = [(617 / 50, js ''hello''), (12469 / 200, js ''hello'')]"
proof -
  let ?lrc = "js ''[00:12.34][01:02.345]hello'' @ [10] @ js ''[00:05.00]'' @ [10]
             @ js ''[00:01.50] world''"
  have s: "(\<Sum>line\<leftarrow>splitLines ?lrc.
             if trim (removeTags line) = [] then 0 else length (scanTags line)) = 3"
    by code_simp
  have t: "map time (parseLyrics ?lrc None) = [3 / 2, 617 / 50, 12469 / 200]"
    by code_simp
  have p: "parseLine (js ''[00:12.34][01:02.345]hello'')
       = [(617 / 50, js ''hello''), (12469 / 200, js ''hello'')]"
    by code_simp
  from s t p show ?thesis
    using C3_parseLyrics [of ?lrc None "js ''[00:12.34][01:02.345]hello''"]
    by simp
qed

text \<open>
  The claim as it is written fails: a text whose only line is one well-formed tag with no
  text behind it has one tag and gives no lyric line.
\<close>

theorem C3_counterexample:
  "length (scanTags (js ''[00:12.34]'')) = 1
   \<and> parseLyrics (js ''[00:12.34]'') None = []"
  by code_simp

lemma round64_error:
  assumes "\<bar>x\<bar> \<le> 2 powi k"
  shows "\<bar>round64 x - x\<bar> \<le> 2 powi (k - 53)"
proof -
  have pos: "\<bar>round64 y - y\<bar> \<le> 2 powi (k - 53)" if y: "0 < y" "y \<le> 2 powi k" for y
  proof -
    have "ilog2 y \<le> k"
    proof (rule ccontr)
      assume "\<not> ilog2 y \<le> k"
      then have "(2::rat) powi k < 2 powi (ilog2 y)"
        by (intro power_int_strict_increasing) simp_all
      with ilog2_bounds [OF y(1)] y(2) show False by simp
    qed
    then have "(2::rat) powi (ilog2 y - 53) \<le> 2 powi (k - 53)"
      by (intro powi_mono) simp
    with round64_pos_bounds [OF y(1)] show ?thesis by simp
  qed
  consider "x = 0" | "0 < x" | "x < 0" by linarith
  then show ?thesis
  proof cases
    case 1
    then show ?thesis using powi_pos [of "k - 53"] by simp
  next
    case 2
    with assms pos [of x] show ?thesis by simp
  next
    case 3
    with assms pos [of "- x"] show ?thesis
      by (simp add: round64_neg abs_minus_commute)
  qed
qed

lemma timeDouble_error:
  assumes "0 \<le> a" and "a \<le> 8192"
  shows "\<bar>timeDouble a - a\<bar> \<le> 1 / 274877906944"
proof -
  define i :: rat where "i = of_int \<lfloor>a\<rfloor>"
  define f where "f = a - i"
  have f: "0 \<le> f" "f \<le> 1" unfolding f_def i_def by linarith+
  have i: "0 \<le> i" "i \<le> 8192" unfolding i_def using assms by (simp_all add: floor_le_iff)
  have "(a - i) * 1000 / 1000 = f" by (simp add: f_def)
  then have td: "timeDouble a = round64 (i + round64 f)"
    unfolding timeDouble_def fadd_def fdiv_def i_def [symmetric] by simp
  from f have "\<bar>f\<bar> \<le> 2 powi 0" by simp
  from round64_error [OF this] have e1: "\<bar>round64 f - f\<bar> \<le> 1 / 9007199254740992"
    by (simp add: power_int_def power_one_over)
  from round64_unit [OF f] i have "\<bar>i + round64 f\<bar> \<le> 2 powi 14" by simp
  from round64_error [OF this] have e2: "\<bar>round64 (i + round64 f) - (i + round64 f)\<bar> \<le> 1 / 549755813888"
    by (simp add: power_int_def power_one_over)
  have "a = i + f" by (simp add: f_def)
  with e1 e2 show ?thesis unfolding td by linarith
qed

lemma timeDouble_range:
  assumes "0 \<le> a" and "a \<le> 8192"
  shows "\<bar>timeDouble a\<bar> \<le> 8193"
  using timeDouble_error [OF assms] assms by linarith

lemma timeDouble_difference:
  assumes "0 \<le> a" "a \<le> 8192" "0 \<le> b" "b \<le> 8192"
  shows "\<bar>fsub (timeDouble a) (timeDouble b) - (a - b)\<bar> \<le> 1 / 68719476736"
proof -
  note ra = timeDouble_range [OF assms(1,2)] and rb = timeDouble_range [OF assms(3,4)]
  then have "\<bar>timeDouble a - timeDouble b\<bar> \<le> 32768" by linarith
  then have "\<bar>timeDouble a - timeDouble b\<bar> \<le> 2 powi 15" by (simp add: power_int_def)
  from round64_error [OF this]
  have e: "\<bar>fsub (timeDouble a) (timeDouble b) - (timeDouble a - timeDouble b)\<bar> \<le> 1 / 274877906944"
    by (simp add: fsub_def power_int_def power_one_over)
  from e timeDouble_error [OF assms(1,2)] timeDouble_error [OF assms(3,4)]
  show ?thesis by linarith
qed

lemma tenth64: "round64 (1 / 10) = 3602879701896397 / 36028797018963968"
  by code_simp

lemma withinTolerance_inside:
  assumes "0 \<le> a" "a \<le> 8192" "0 \<le> b" "b \<le> 8192" and "\<bar>a - b\<bar> \<le> 99 / 1000"
  shows "withinTolerance a b"
  using timeDouble_difference [OF assms(1-4)] assms(5)
  unfolding withinTolerance_def tenth64 by linarith

lemma withinTolerance_outside:
  assumes "0 \<le> a" "a \<le> 8192" "0 \<le> b" "b \<le> 8192" and "101 / 1000 \<le> \<bar>a - b\<bar>"
  shows "\<not> withinTolerance a b"
  using timeDouble_difference [OF assms(1-4)] assms(5)
  unfolding withinTolerance_def tenth64 by linarith

lemma timeDouble_parts:
  assumes "0 \<le> ms" and "ms < 1000"
  shows "timeDouble (of_int i + of_int ms / 1000) = fadd (of_int i) (fdiv (of_int ms) 1000)"
proof -
  have "\<lfloor>(of_int i :: rat) + of_int ms / 1000\<rfloor> = i"
    using assms by (simp add: floor_unique)
  then show ?thesis by (simp add: timeDouble_def)
qed

text \<open>
  Claim C8. With a translation, the result is the sorted primary lines with the parsed
  translation lines merged one after the other, in the order of the translation text.
  Merging one translation line sets the translated text of the first primary line whose
  time is within the tolerance of its own, and of no other line; when no primary line is
  within the tolerance, the list is left as it is. Within the tolerance is the test of
  the program: the difference of the two times, computed on doubles, is smaller in
  absolute value than the double 0.1. For times of at most 8192 seconds this holds when
  the times differ by at most 99 milliseconds and fails when they differ by at least 101
  milliseconds; at 100 milliseconds the rounding decides, so that 0.30 is within the
  tolerance of 0.20 and 1.10 is not within that of 1.00. The merge keeps the number of
  lines, their times and their texts.
\<close>

theorem C8_translation_merge:
  "(lrc \<noteq> [] \<and> t \<noteq> [] \<longrightarrow>
      parseLyrics lrc (Some t) = foldl mergeTranslation (parseLyrics lrc None) (parseAll t))
   \<and> (i < length d \<and> withinTolerance (time (d ! i)) (fst tp)
        \<and> (\<forall>j<i. \<not> withinTolerance (time (d ! j)) (fst tp))
      \<longrightarrow> mergeTranslation d tp = d[i := (d ! i)\<lparr>ttext := Some (snd tp)\<rparr>])
   \<and> ((\<forall>l\<in>set d. \<not> withinTolerance (time l) (fst tp)) \<longrightarrow> mergeTranslation d tp = d)
   \<and> (withinTolerance a b \<longleftrightarrow>
        \<bar>round64 (timeDouble a - timeDouble b)\<bar> < 3602879701896397 / 36028797018963968)
   \<and> (0 \<le> ms \<and> ms < 1000 \<longrightarrow>
        timeDouble (of_int k + of_int ms / 1000) = round64 (of_int k + round64 (of_int ms / 1000)))
   \<and> (0 \<le> a \<and> a \<le> 8192 \<and> 0 \<le> b \<and> b \<le> 8192 \<and> \<bar>a - b\<bar> \<le> 99 / 1000
        \<longrightarrow> withinTolerance a b)
   \<and> (0 \<le> a \<and> a \<le> 8192 \<and> 0 \<le> b \<and> b \<le> 8192 \<and> 101 / 1000 \<le> \<bar>a - b\<bar>
        \<longrightarrow> \<not> withinTolerance a b)
   \<and> withinTolerance (3 / 10) (1 / 5)
   \<and> \<not> withinTolerance (11 / 10) 1
   \<and> length (parseLyrics lrc tly) = length (parseLyrics lrc None)
   \<and> map time (parseLyrics lrc tly) = map time (parseLyrics lrc None)
   \<and> map ltext (parseLyrics lrc tly) = map ltext (parseLyrics lrc None)"
proof -
  have a: "lrc \<noteq> [] \<and> t \<noteq> [] \<longrightarrow>
      parseLyrics lrc (Some t) = foldl mergeTranslation (parseLyrics lrc None) (parseAll t)"
    by (simp add: parseLyrics_Some)
  have b: "i < length d \<and> withinTolerance (time (d ! i)) (fst tp)
        \<and> (\<forall>j<i. \<not> withinTolerance (time (d ! j)) (fst tp))
      \<longrightarrow> mergeTranslation d tp = d[i := (d ! i)\<lparr>ttext := Some (snd tp)\<rparr>]"
  proof
    assume "i < length d \<and> withinTolerance (time (d ! i)) (fst tp)
        \<and> (\<forall>j<i. \<not> withinTolerance (time (d ! j)) (fst tp))"
    then have "findIndex (\<lambda>l. withinTolerance (time l) (fst tp)) d = Some i"
      by (simp add: findIndex_Some)
    then show "mergeTranslation d tp = d[i := (d ! i)\<lparr>ttext := Some (snd tp)\<rparr>]"
      by (simp add: mergeTranslation_def)
  qed
  have c: "(\<forall>l\<in>set d. \<not> withinTolerance (time l) (fst tp)) \<longrightarrow> mergeTranslation d tp = d"
  proof
    assume "\<forall>l\<in>set d. \<not> withinTolerance (time l) (fst tp)"
    then have "findIndex (\<lambda>l. withinTolerance (time l) (fst tp)) d = None"
      by (simp add: findIndex_None)
    then show "mergeTranslation d tp = d"
      by (simp add: mergeTranslation_def)
  qed
  have w: "withinTolerance a b \<longleftrightarrow>
        \<bar>round64 (timeDouble a - timeDouble b)\<bar> < 3602879701896397 / 36028797018963968"
    by (simp add: withinTolerance_def fsub_def tenth64)
  have p: "0 \<le> ms \<and> ms < 1000 \<longrightarrow>
        timeDouble (of_int k + of_int ms / 1000) = round64 (of_int k + round64 (of_int ms / 1000))"
    using timeDouble_parts [of ms k] by (simp add: fadd_def fdiv_def)
  have ins: "0 \<le> a \<and> a \<le> 8192 \<and> 0 \<le> b \<and> b \<le> 8192 \<and> \<bar>a - b\<bar> \<le> 99 / 1000
        \<longrightarrow> withinTolerance a b"
    using withinTolerance_inside [of a b] by blast
  have out: "0 \<le> a \<and> a \<le> 8192 \<and> 0 \<le> b \<and> b \<le> 8192 \<and> 101 / 1000 \<le> \<bar>a - b\<bar>
        \<longrightarrow> \<not> withinTolerance a b"
    using withinTolerance_outside [of a b] by blast
  have e1: "withinTolerance (3 / 10) (1 / 5)" by code_simp
  have e2: "\<not> withinTolerance (11 / 10) 1" by code_simp
  from a b c w p ins out e1 e2 parseLyrics_shape [of lrc tly] show ?thesis by blast
qed

theorem C8_translation_merge_witness:
  "parseLyrics (js ''[00:01.00]a'' @ [10] @ js ''[00:01.05]b'')
       (Some (js ''[00:09.00]y'' @ [10] @ js ''[00:01.04]x''))
     = [\<lparr>time = 1, ltext = js ''a'', ttext = Some (js ''x'')\<rparr>,
        \<lparr>time = 21 / 20, ltext = js ''b'', ttext = None\<rparr>]
   \<and> mergeTranslation
        [\<lparr>time = 1, ltext = js ''a'', ttext = None\<rparr>, \<lparr>time = 21 / 20, ltext = js ''b'', ttext = None\<rparr>]
        (9, js ''y'')
     = [\<lparr>time = 1, ltext = js ''a'', ttext = None\<rparr>, \<lparr>time = 21 / 20, ltext = js ''b'', ttext = None\<rparr>]
   \<and> mergeTranslation
        [\<lparr>time = 1, ltext = js ''a'', ttext = None\<rparr>, \<lparr>time = 21 / 20, ltext = js ''b'', ttext = None\<rparr>]
        (26 / 25, js ''x'')
     = [\<lparr>time = 1, ltext = js ''a'', ttext = Some (js ''x'')\<rparr>,
        \<lparr>time = 21 / 20, ltext = js ''b'', ttext = None\<rparr>]
   \<and> parseLyrics (js ''[00:00.30]a'') (Some (js ''[00:00.20]x''))
     = [\<lparr>time = 3 / 10, ltext = js ''a'', ttext = Some (js ''x'')\<rparr>]
   \<and> parseLyrics (js ''[00:00.20]a'' @ [10] @ js ''[00:00.30]b'') (Some (js ''[00:00.30]x''))
     = [\<lparr>time = 1 / 5, ltext = js ''a'', ttext = Some (js ''x'')\<rparr>,
        \<lparr>time = 3 / 10, ltext = js ''b'', ttext = None\<rparr>]
   \<and> parseLyrics (js ''[00:01.10]a'') (Some (js ''[00:01.00]x''))
     = [\<lparr>time = 11 / 10, ltext = js ''a'', ttext = None\<rparr>]"
proof -
  let ?lrc = "js ''[00:01.00]a'' @ [10] @ js ''[00:01.05]b''"
  let ?t = "js ''[00:09.00]y'' @ [10] @ js ''[00:01.04]x''"
  let ?d = "[\<lparr>time = 1, ltext = js ''a'', ttext = None\<rparr>,
             \<lparr>time = 21 / 20, ltext = js ''b'', ttext = None\<rparr>]"
  note T = C8_translation_merge [where lrc = ?lrc and t = ?t and i = 0 and d = ?d and tly = None
      and a = 0 and b = 0 and ms = 0 and k = 0]
  have n: "?lrc \<noteq> [] \<and> ?t \<noteq> []" by simp
  have p: "parseLyrics ?lrc None = ?d" by code_simp
  have q: "parseAll ?t = [(9, js ''y''), (26 / 25, js ''x'')]" by code_simp
  have f1: "\<not> withinTolerance 1 9" by code_simp
  have f2: "\<not> withinTolerance (21 / 20) 9" by code_simp
  have f3: "withinTolerance 1 (26 / 25)" by code_simp
  have far: "\<forall>l\<in>set ?d. \<not> withinTolerance (time l) (fst (9 :: rat, js ''y''))"
    by (simp add: f1 f2)
  have near: "0 < length ?d \<and> withinTolerance (time (?d ! 0)) (fst (26 / 25 :: rat, js ''x''))
        \<and> (\<forall>j<0. \<not> withinTolerance (time (?d ! j)) (fst (26 / 25 :: rat, js ''x'')))"
    by (simp add: f3)
  have m1: "mergeTranslation ?d (9, js ''y'') = ?d"
    using far T [where tp = "(9, js ''y'')"] by blast
  have m2: "mergeTranslation ?d (26 / 25, js ''x'')
            = ?d[0 := (?d ! 0)\<lparr>ttext := Some (snd (26 / 25 :: rat, js ''x''))\<rparr>]"
    using near T [where tp = "(26 / 25, js ''x'')"] by blast
  have all: "parseLyrics ?lrc (Some ?t) = foldl mergeTranslation (parseLyrics ?lrc None) (parseAll ?t)"
    using n T [where tp = "(9, js ''y'')"] by blast
  from m2 have m2': "mergeTranslation ?d (26 / 25, js ''x'')
     = [\<lparr>time = 1, ltext = js ''a'', ttext = Some (js ''x'')\<rparr>,
        \<lparr>time = 21 / 20, ltext = js ''b'', ttext = None\<rparr>]" by simp
  have v1: "parseLyrics (js ''[00:00.30]a'') (Some (js ''[00:00.20]x''))
     = [\<lparr>time = 3 / 10, ltext = js ''a'', ttext = Some (js ''x'')\<rparr>]" by code_simp
  have v2: "parseLyrics (js ''[00:00.20]a'' @ [10] @ js ''[00:00.30]b'') (Some (js ''[00:00.30]x''))
     = [\<lparr>time = 1 / 5, ltext = js ''a'', ttext = Some (js ''x'')\<rparr>,
        \<lparr>time = 3 / 10, ltext = js ''b'', ttext = None\<rparr>]" by code_simp
  have v3: "parseLyrics (js ''[00:01.10]a'') (Some (js ''[00:01.00]x''))
     = [\<lparr>time = 11 / 10, ltext = js ''a'', ttext = None\<rparr>]" by code_simp
  from all p q m1 m2' v1 v2 v3 show ?thesis by simp
qed

section \<open>Preview detector\<close>







section \<open>Cross-catalog sweep\<close>

lemma getCount_bump:
  "getCount (bump m k) k' = (if k' = k then getCount m k + 1 else getCount m k')"
  by (simp add: getCount_def bump_def update_conv')

lemma getCount_foldl_bump:
  "getCount (foldl bump m ks) k = getCount m k + of_nat (count_list ks k)"
  by (induction ks arbitrary: m) (auto simp: getCount_bump)

lemma getCount_foldl_bump_distinct:
  assumes "distinct ks"
  shows "getCount (foldl bump m ks) k = getCount m k + (if k \<in> set ks then 1 else 0)"
proof -
  from assms have "count_list ks k = (if k \<in> set ks then 1 else 0)"
    by (induction ks) auto
  then show ?thesis by (simp add: getCount_foldl_bump)
qed

lemma tally_map:
  "tally env (map (\<lambda>s. (s, f s)) srcs) st =
     (case find (\<lambda>s. f s \<noteq> None) srcs of
        None \<Rightarrow>
          (None, saveSourceStats env
                   (st\<lparr>sourceFailCount := foldl bump (sourceFailCount st) srcs\<rparr>))
      | Some w \<Rightarrow>
          (f w, saveSourceStats env
                  (st\<lparr>sourceFailCount :=
                         foldl bump (sourceFailCount st) (takeWhile (\<lambda>s. f s = None) srcs),
                       sourceSuccessCount := bump (sourceSuccessCount st) w\<rparr>)))"
proof (induction srcs arbitrary: st)
  case Nil
  then show ?case by simp
next
  case (Cons s srcs)
  show ?case
  proof (cases "f s")
    case None
    then show ?thesis
      using Cons.IH [of "st\<lparr>sourceFailCount := bump (sourceFailCount st) s\<rparr>"]
      by (simp split: option.splits)
  next
    case (Some r)
    then show ?thesis by simp
  qed
qed

lemma saveSourceStats_fields:
  "sourceSuccessCount (saveSourceStats env st) = sourceSuccessCount st
   \<and> sourceFailCount (saveSourceStats env st) = sourceFailCount st
   \<and> crossSourceSearchInProgress (saveSourceStats env st) = crossSourceSearchInProgress st
   \<and> api_source_stats (saveSourceStats env st) =
       (if storageWorks env then Some (sourceSuccessCount st, sourceFailCount st)
        else api_source_stats st)"
  by (simp add: saveSourceStats_def)

text \<open>The sweep, with the trace left out: result and state.\<close>

lemma searchSongFromOtherSources_tally:
  "(fst (searchSongFromOtherSources env st n a x q),
    fst (snd (searchSongFromOtherSources env st n a x q))) =
     tally env
       (map (\<lambda>s. (s, fst (searchSingleSource env s n a)))
          (getSortedFallbackSources (sourceSuccessCount st) x)) st"
  by (simp add: searchSongFromOtherSources_def Let_def split_def comp_def)

lemma getSongUrlFromSource_events:
  "set (snd (getSongUrlFromSource env i s q)) \<subseteq> {MarkAvailable, MarkUnavailable}"
  by (auto simp: getSongUrlFromSource_def split: sum.splits option.splits JsError.splits if_splits)

lemma tryQualities_events:
  "set (snd (tryQualities env s i qs)) \<subseteq> {MarkAvailable, MarkUnavailable}"
proof (induction qs)
  case Nil
  then show ?case by simp
next
  case (Cons q qs)
  then show ?case
    using getSongUrlFromSource_events [of env i s q]
    by (auto simp: split_def Let_def split: option.splits if_splits)
qed

lemma filter_marks:
  assumes "set evs \<subseteq> {MarkAvailable, MarkUnavailable}"
  shows "filter isCallSearch evs = [] \<and> filter isCallSweep evs = []"
proof -
  from assms have "\<forall>e\<in>set evs. \<not> isCallSearch e \<and> \<not> isCallSweep e"
    by (auto simp: isCallSearch_def isCallSweep_def)
  then show ?thesis by (simp add: filter_empty_conv)
qed

lemma tryQualities_no_calls:
  "filter isCallSearch (snd (tryQualities env s i qs)) = []
   \<and> filter isCallSweep (snd (tryQualities env s i qs)) = []"
  by (rule filter_marks [OF tryQualities_events])

lemma searchSingleSource_events:
  "filter isCallSearch (snd (searchSingleSource env s n a)) = [CallSearch s n a]
   \<and> filter isCallSweep (snd (searchSingleSource env s n a)) = []"
proof -
  have c: "isCallSearch (CallSearch s n a) \<and> \<not> isCallSweep (CallSearch s n a)"
    by (simp add: isCallSearch_def isCallSweep_def)
  show ?thesis
    unfolding searchSingleSource_def Let_def split_def
    by (simp add: c tryQualities_no_calls split: sum.splits list.splits
        del: tryQualities.simps)
qed

lemma filter_concat_map:
  "filter P (concat (map g xs)) = concat (map (\<lambda>x. filter P (g x)) xs)"
  by (induction xs) auto

lemma searchSongFromOtherSources_calls:
  "filter isCallSearch (snd (snd (searchSongFromOtherSources env st n a x q))) =
     map (\<lambda>s. CallSearch s n a) (getSortedFallbackSources (sourceSuccessCount st) x)
   \<and> filter isCallSweep (snd (snd (searchSongFromOtherSources env st n a x q))) =
     [CallSweep n a x q]"
  by (simp add: searchSongFromOtherSources_def Let_def split_def filter_concat_map comp_def
      searchSingleSource_events isCallSearch_def isCallSweep_def)

text \<open>
  Claim C2, as the source has it. \<open>searchSongFromOtherSources\<close> calls
  \<open>searchSingleSource\<close> once for every source of the ranked roster, in roster order,
  and returns the result of the first source, in that order, whose result is not null, or
  null when there is none. The counters are updated only up to that source: its success
  counter goes up by one, and so does the fail counter of every source ranked before it;
  the sources ranked after it are not counted at all, whatever their results. When no
  source succeeds, the fail counter of every source of the roster goes up by one. The
  statistics written to the storage are the counters as they are after the call.
\<close>

theorem C2_searchSongFromOtherSources:
  assumes "sources = getSortedFallbackSources (sourceSuccessCount st) x"
    and "found = (\<lambda>s. fst (searchSingleSource env s n a))"
    and "out = searchSongFromOtherSources env st n a x q"
    and "st' = fst (snd out)"
  shows "filter isCallSearch (snd (snd out)) = map (\<lambda>s. CallSearch s n a) sources
    \<and> fst out = (case find (\<lambda>s. found s \<noteq> None) sources of None \<Rightarrow> None | Some w \<Rightarrow> found w)
    \<and> (\<forall>s. getCount (sourceSuccessCount st') s =
             getCount (sourceSuccessCount st) s
             + (if find (\<lambda>s. found s \<noteq> None) sources = Some s then 1 else 0))
    \<and> (\<forall>s. getCount (sourceFailCount st') s =
             getCount (sourceFailCount st) s
             + (if s \<in> set (takeWhile (\<lambda>s. found s = None) sources) then 1 else 0))
    \<and> (storageWorks env \<longrightarrow>
          api_source_stats st' = Some (sourceSuccessCount st', sourceFailCount st'))
    \<and> ((\<forall>s\<in>set sources. found s = None) \<longrightarrow>
          fst out = None
          \<and> (\<forall>s\<in>set sources. getCount (sourceFailCount st') s = getCount (sourceFailCount st) s + 1))"
proof -
  let ?w = "find (\<lambda>s. found s \<noteq> None) sources"
  let ?tw = "takeWhile (\<lambda>s. found s = None) sources"
  have dist: "distinct sources"
    unfolding assms(1) getSortedFallbackSources_sort_key
    using FALLBACK_SOURCES_distinct by simp
  then have dtw: "distinct ?tw" by (rule distinct_takeWhile)
  have t: "(fst out, st') = tally env (map (\<lambda>s. (s, found s)) sources) st"
    unfolding assms using searchSongFromOtherSources_tally [of env st n a x q] by simp
  have calls: "filter isCallSearch (snd (snd out)) = map (\<lambda>s. CallSearch s n a) sources"
    unfolding assms using searchSongFromOtherSources_calls [of env st n a x q] by simp
  have res: "fst out = (case ?w of None \<Rightarrow> None | Some w \<Rightarrow> found w)"
    using t unfolding tally_map by (simp split: option.splits)
  have none_tw: "?w = None \<Longrightarrow> ?tw = sources"
    by (simp add: find_None_iff takeWhile_eq_all_conv)
  have succ: "getCount (sourceSuccessCount st') s =
             getCount (sourceSuccessCount st) s + (if ?w = Some s then 1 else 0)" for s
    using t unfolding tally_map
    by (auto simp: saveSourceStats_fields getCount_bump split: option.splits)
  have fail: "getCount (sourceFailCount st') s =
             getCount (sourceFailCount st) s + (if s \<in> set ?tw then 1 else 0)" for s
  proof (cases ?w)
    case None
    with t have "sourceFailCount st' = foldl bump (sourceFailCount st) sources"
      unfolding tally_map by (simp add: saveSourceStats_fields)
    moreover have "?tw = sources" by (rule none_tw [OF None])
    ultimately show ?thesis
      using dist by (simp only: getCount_foldl_bump_distinct)
  next
    case (Some w)
    with t have "sourceFailCount st' = foldl bump (sourceFailCount st) ?tw"
      unfolding tally_map by (simp add: saveSourceStats_fields)
    with dtw show ?thesis
      by (simp add: getCount_foldl_bump_distinct)
  qed
  have saved: "storageWorks env \<longrightarrow>
          api_source_stats st' = Some (sourceSuccessCount st', sourceFailCount st')"
    using t unfolding tally_map
    by (auto simp: saveSourceStats_fields split: option.splits)
  have allfail: "(\<forall>s\<in>set sources. found s = None) \<longrightarrow>
          fst out = None
          \<and> (\<forall>s\<in>set sources. getCount (sourceFailCount st') s = getCount (sourceFailCount st) s + 1)"
  proof
    assume a: "\<forall>s\<in>set sources. found s = None"
    then have w: "?w = None" by (simp add: find_None_iff)
    from a have tw: "?tw = sources" by (simp add: takeWhile_eq_all_conv)
    from w res have "fst out = None" by simp
    moreover have "\<forall>s\<in>set sources. getCount (sourceFailCount st') s = getCount (sourceFailCount st) s + 1"
      using fail tw by simp
    ultimately show "fst out = None
          \<and> (\<forall>s\<in>set sources. getCount (sourceFailCount st') s = getCount (sourceFailCount st) s + 1)"
      by blast
  qed
  from calls res succ fail saved allfail show ?thesis by blast
qed

theorem C2_searchSongFromOtherSources_witness:
  "fst (searchSongFromOtherSources exampleEnv (emptyState\<lparr>sourceSuccessCount := [(js ''migu'', 2)]\<rparr>)
          (js ''Love Story'') (Some (js ''Taylor Swift'')) (js ''netease'') (js ''320''))
     = Some \<lparr>r_url = js ''http://k/full.mp3'', r_br = js ''128'', r_size = Some 4096000,
             r_source = Some (js ''kuwo'')\<rparr>
   \<and> getCount (sourceFailCount (fst (snd (searchSongFromOtherSources exampleEnv
          (emptyState\<lparr>sourceSuccessCount := [(js ''migu'', 2)]\<rparr>)
          (js ''Love Story'') (Some (js ''Taylor Swift'')) (js ''netease'') (js ''320''))))) (js ''migu'') = 1
   \<and> getCount (sourceSuccessCount (fst (snd (searchSongFromOtherSources exampleEnv
          (emptyState\<lparr>sourceSuccessCount := [(js ''migu'', 2)]\<rparr>)
          (js ''Love Story'') (Some (js ''Taylor Swift'')) (js ''netease'') (js ''320''))))) (js ''kuwo'') = 1
   \<and> fst (searchSongFromOtherSources exampleEnvOpen emptyState
          (js ''Love Story'') (Some (js ''Taylor Swift'')) (js ''netease'') (js ''320'')) = None
   \<and> getCount (sourceFailCount (fst (snd (searchSongFromOtherSources exampleEnvOpen emptyState
          (js ''Love Story'') (Some (js ''Taylor Swift'')) (js ''netease'') (js ''320''))))) (js ''joox'') = 1"
proof -
  let ?st = "emptyState\<lparr>sourceSuccessCount := [(js ''migu'', 2)]\<rparr>"
  let ?n = "js ''Love Story''"
  let ?a = "Some (js ''Taylor Swift'')"
  let ?found = "\<lambda>s. fst (searchSingleSource exampleEnv s ?n ?a)"
  let ?foundO = "\<lambda>s. fst (searchSingleSource exampleEnvOpen s ?n ?a)"
  let ?src = "getSortedFallbackSources (sourceSuccessCount ?st) (js ''netease'')"
  let ?srcO = "getSortedFallbackSources (sourceSuccessCount emptyState) (js ''netease'')"
  let ?out = "searchSongFromOtherSources exampleEnv ?st ?n ?a (js ''netease'') (js ''320'')"
  let ?outO = "searchSongFromOtherSources exampleEnvOpen emptyState ?n ?a (js ''netease'') (js ''320'')"
  note A = C2_searchSongFromOtherSources [OF refl refl refl refl,
      of exampleEnv ?st ?n ?a "js ''netease''" "js ''320''"]
  note B = C2_searchSongFromOtherSources [OF refl refl refl refl,
      of exampleEnvOpen emptyState ?n ?a "js ''netease''" "js ''320''"]
  have w: "find (\<lambda>s. ?found s \<noteq> None) ?src = Some (js ''kuwo'')" by code_simp
  have k: "?found (js ''kuwo'') = Some \<lparr>r_url = js ''http://k/full.mp3'', r_br = js ''128'',
             r_size = Some 4096000, r_source = Some (js ''kuwo'')\<rparr>" by code_simp
  have tw: "takeWhile (\<lambda>s. ?found s = None) ?src = [js ''migu'']" by code_simp
  have f0: "getCount (sourceFailCount ?st) (js ''migu'') = 0" by code_simp
  have s0: "getCount (sourceSuccessCount ?st) (js ''kuwo'') = 0" by code_simp
  have allO: "\<forall>s\<in>set ?srcO. ?foundO s = None"
    by (simp add: searchSingleSource_def exampleEnvOpen_def exampleEnv_def)
  have jO: "js ''joox'' \<in> set ?srcO" by code_simp
  have f0O: "getCount (sourceFailCount emptyState) (js ''joox'') = 0" by code_simp
  have r1: "fst ?out = Some \<lparr>r_url = js ''http://k/full.mp3'', r_br = js ''128'',
             r_size = Some 4096000, r_source = Some (js ''kuwo'')\<rparr>"
    using A w k by simp
  have r2: "getCount (sourceFailCount (fst (snd ?out))) (js ''migu'') = 1"
    using A tw f0 by simp
  have r3: "getCount (sourceSuccessCount (fst (snd ?out))) (js ''kuwo'') = 1"
    using A w s0 by simp
  have r4: "fst ?outO = None" using B allO by blast
  from B allO have "\<forall>s\<in>set ?srcO. getCount (sourceFailCount (fst (snd ?outO))) s
        = getCount (sourceFailCount emptyState) s + 1"
    by blast
  with jO have e: "getCount (sourceFailCount (fst (snd ?outO))) (js ''joox'')
        = getCount (sourceFailCount emptyState) (js ''joox'') + 1"
    by blast
  have r5: "getCount (sourceFailCount (fst (snd ?outO))) (js ''joox'') = 1"
    unfolding e f0O by simp
  from r1 r2 r3 r4 r5 show ?thesis by blast
qed

text \<open>
  The claim as it is written fails: kuwo, first of the roster, succeeds, so the loop
  returns there; kugou is in the roster and yields nothing, and its fail counter is not
  incremented.
\<close>

theorem C2_counterexample:
  "js ''kugou'' \<in> set (getSortedFallbackSources (sourceSuccessCount emptyState) (js ''netease''))
   \<and> fst (searchSingleSource exampleEnv (js ''kugou'') (js ''Love Story'') (Some (js ''Taylor Swift''))) = None
   \<and> getCount (sourceFailCount emptyState) (js ''kugou'') = 0
   \<and> getCount (sourceFailCount (fst (snd (searchSongFromOtherSources exampleEnv emptyState
          (js ''Love Story'') (Some (js ''Taylor Swift'')) (js ''netease'') (js ''320''))))) (js ''kugou'') = 0"
  by code_simp

section \<open>Resolution of a song\<close>

lemma primaryLookup_url: "primaryLookup env song = Some r \<Longrightarrow> r_url r \<noteq> []"
  by (auto simp: primaryLookup_def split: if_splits sum.splits list.splits option.splits)

lemma primaryLookup_throws:
  "necMatch env (song_id song) = Inl e \<Longrightarrow> primaryLookup env song = None"
  by (simp add: primaryLookup_def)

lemma getSongUrlFromSource_url:
  "fst (getSongUrlFromSource env i s q) = Some r \<Longrightarrow> r_url r \<noteq> []"
  by (auto simp: getSongUrlFromSource_def split: if_splits sum.splits option.splits)

lemma getSongUrlFromSource_throws:
  "gdUrl env s i q = Inl e \<Longrightarrow> fst (getSongUrlFromSource env i s q) = None"
  by (simp add: getSongUrlFromSource_def)

lemma getSongUrlFromSource_open:
  "\<not> gdAvailable env \<Longrightarrow> getSongUrlFromSource env i s q = (None, [])"
  by (simp add: getSongUrlFromSource_def)

lemma tryQualities_full:
  "fst (tryQualities env s i qs) = Some r \<Longrightarrow>
     r_url r \<noteq> [] \<and> \<not> isProbablyPreview (config env) (r_url r) (r_size r) None
     \<and> r_source r = Some s"
proof (induction qs)
  case Nil
  then show ?case by simp
next
  case (Cons q qs)
  then show ?case
    by (auto simp: split_def Let_def split: option.splits if_splits)
qed

lemma searchSingleSource_full:
  assumes "fst (searchSingleSource env s n a) = Some r"
  shows "r_url r \<noteq> [] \<and> \<not> isProbablyPreview (config env) (r_url r) (r_size r) None
     \<and> r_source r = Some s"
proof -
  from assms obtain i where "fst (tryQualities env s i [js ''128'', js ''320'']) = Some r"
    unfolding searchSingleSource_def Let_def split_def
    by (auto split: if_splits sum.splits list.splits simp del: tryQualities.simps)
  then show ?thesis by (rule tryQualities_full)
qed

lemma searchSingleSource_open:
  "\<not> gdAvailable env \<Longrightarrow> fst (searchSingleSource env s n a) = None"
  by (simp add: searchSingleSource_def)

lemma searchSongFromOtherSources_result:
  "fst (searchSongFromOtherSources env st n a x q) =
     (case find (\<lambda>s. fst (searchSingleSource env s n a) \<noteq> None)
             (getSortedFallbackSources (sourceSuccessCount st) x) of
        None \<Rightarrow> None
      | Some w \<Rightarrow> fst (searchSingleSource env w n a))"
proof -
  have "fst (searchSongFromOtherSources env st n a x q) =
        fst (tally env (map (\<lambda>s. (s, fst (searchSingleSource env s n a)))
               (getSortedFallbackSources (sourceSuccessCount st) x)) st)"
    using searchSongFromOtherSources_tally [of env st n a x q] by (metis fst_conv)
  then show ?thesis unfolding tally_map by (simp split: option.splits)
qed

lemma searchSongFromOtherSources_full:
  assumes "fst (searchSongFromOtherSources env st n a x q) = Some r"
  shows "r_url r \<noteq> [] \<and> \<not> isProbablyPreview (config env) (r_url r) (r_size r) None"
proof -
  from assms obtain w where "fst (searchSingleSource env w n a) = Some r"
    unfolding searchSongFromOtherSources_result by (auto split: option.splits)
  then show ?thesis using searchSingleSource_full by blast
qed

lemma searchSongFromOtherSources_open:
  assumes "\<not> gdAvailable env"
  shows "fst (searchSongFromOtherSources env st n a x q) = None"
proof -
  have "find (\<lambda>s. fst (searchSingleSource env s n a) \<noteq> None)
             (getSortedFallbackSources (sourceSuccessCount st) x) = None"
    using assms by (simp add: find_None_iff searchSingleSource_open)
  then show ?thesis unfolding searchSongFromOtherSources_result by simp
qed

lemma startCrossSearch_fields:
  "returned (startCrossSearch env song q p) = returned p
   \<and> candidates (startCrossSearch env song q p) = candidates p
   \<and> crossSourcePromise (startCrossSearch env song q p) =
       Some (fst (searchSongFromOtherSources env (state p) (song_name song)
                    (firstArtist (song_artist song)) (sourceOf song) q))"
  by (simp add: startCrossSearch_def split_def Let_def)

text \<open>What the first step leaves behind.\<close>

lemma primaryStep_fields:
  "returned (primaryStep env st song q) =
     (case primaryLookup env song of
        None \<Rightarrow> None
      | Some res \<Rightarrow>
          if isProbablyPreview (config env) (r_url res) (r_size res) None then None else Some res)
   \<and> candidates (primaryStep env st song q) =
     (case primaryLookup env song of
        None \<Rightarrow> []
      | Some res \<Rightarrow>
          if isProbablyPreview (config env) (r_url res) (r_size res) None then [res] else [])"
  by (simp add: primaryStep_def Let_def startCrossSearch_fields split: option.splits)

lemma primaryStep_promise:
  "crossSourcePromise (primaryStep env st song q) = Some x \<Longrightarrow>
     x = fst (searchSongFromOtherSources env st (song_name song)
                (firstArtist (song_artist song)) (sourceOf song) q)"
  by (auto simp: primaryStep_def Let_def startCrossSearch_fields split: option.splits if_splits)

lemma aggregatorStep_fields:
  "returned p = None \<Longrightarrow>
   returned (aggregatorStep env song q p) =
     (if gdAvailable env then
        (case fst (getSongUrlFromSource env (song_id song) (sourceOf song) q) of
           None \<Rightarrow> None
         | Some res \<Rightarrow>
             if isProbablyPreview (config env) (r_url res) (r_size res) (song_duration song)
             then None else Some res)
      else None)
   \<and> candidates (aggregatorStep env song q p) =
     candidates p @
     (if gdAvailable env then
        (case fst (getSongUrlFromSource env (song_id song) (sourceOf song) q) of
           None \<Rightarrow> []
         | Some res \<Rightarrow>
             if isProbablyPreview (config env) (r_url res) (r_size res) (song_duration song)
             then [res] else [])
      else [])"
  by (simp add: aggregatorStep_def Let_def split_def startCrossSearch_fields split: option.splits)

lemma aggregatorStep_promise:
  assumes "crossSourcePromise (aggregatorStep env song q p) = Some x"
  shows "crossSourcePromise p = Some x
         \<or> (\<exists>st'. x = fst (searchSongFromOtherSources env st' (song_name song)
                (firstArtist (song_artist song)) (sourceOf song) q))"
  using assms
  by (auto simp: aggregatorStep_def Let_def split_def startCrossSearch_fields
      split: option.splits if_splits)

lemma progress_promise_full:
  assumes "crossSourcePromise (getSongUrl_progress env st song q) = Some (Some r)"
  shows "r_url r \<noteq> [] \<and> \<not> isProbablyPreview (config env) (r_url r) (r_size r) None"
proof -
  have "\<exists>st'. Some r = fst (searchSongFromOtherSources env st' (song_name song)
                (firstArtist (song_artist song)) (sourceOf song) q)"
  proof (cases "returned (primaryStep env st song q)")
    case None
    with assms have "crossSourcePromise (aggregatorStep env song q (primaryStep env st song q))
        = Some (Some r)"
      by (simp add: getSongUrl_progress_def Let_def)
    from aggregatorStep_promise [OF this] primaryStep_promise show ?thesis by blast
  next
    case (Some res)
    with assms have "crossSourcePromise (primaryStep env st song q) = Some (Some r)"
      by (simp add: getSongUrl_progress_def Let_def)
    from primaryStep_promise [OF this] show ?thesis by blast
  qed
  then show ?thesis using searchSongFromOtherSources_full by metis
qed

lemma progress_promise_open:
  assumes "\<not> gdAvailable env"
  shows "crossSourcePromise (getSongUrl_progress env st song q) \<noteq> Some (Some r)"
proof
  assume a: "crossSourcePromise (getSongUrl_progress env st song q) = Some (Some r)"
  have ag: "aggregatorStep env song q p = p" for p
    using assms by (simp add: aggregatorStep_def)
  from a have "crossSourcePromise (primaryStep env st song q) = Some (Some r)"
    by (simp add: getSongUrl_progress_def Let_def ag split: option.splits)
  from primaryStep_promise [OF this] searchSongFromOtherSources_open [OF assms]
  show False by simp
qed

lemma progress_returned:
  "returned (getSongUrl_progress env st song q) =
     (case primaryLookup env song of
        None \<Rightarrow> None
      | Some res \<Rightarrow>
          if isProbablyPreview (config env) (r_url res) (r_size res) None then None else Some res)
     \<or> (returned (primaryStep env st song q) = None
        \<and> returned (getSongUrl_progress env st song q) =
          (if gdAvailable env then
             (case fst (getSongUrlFromSource env (song_id song) (sourceOf song) q) of
                None \<Rightarrow> None
              | Some res \<Rightarrow>
                  if isProbablyPreview (config env) (r_url res) (r_size res) (song_duration song)
                  then None else Some res)
           else None))"
proof (cases "returned (primaryStep env st song q)")
  case None
  then show ?thesis
    using aggregatorStep_fields [OF None, of env song q]
    by (simp add: getSongUrl_progress_def Let_def)
next
  case (Some res)
  then show ?thesis
    using primaryStep_fields [of env st song q]
    by (simp add: getSongUrl_progress_def Let_def)
qed

lemma progress_returned_url:
  assumes "returned (getSongUrl_progress env st song q) = Some r"
  shows "r_url r \<noteq> []"
  using progress_returned [of env st song q] assms primaryLookup_url getSongUrlFromSource_url
  by (auto split: option.splits if_splits)

lemma progress_candidates:
  "candidates (getSongUrl_progress env st song q) =
     (case primaryLookup env song of
        None \<Rightarrow> []
      | Some res \<Rightarrow>
          if isProbablyPreview (config env) (r_url res) (r_size res) None then [res] else [])
     @ (if returned (primaryStep env st song q) = None \<and> gdAvailable env then
          (case fst (getSongUrlFromSource env (song_id song) (sourceOf song) q) of
             None \<Rightarrow> []
           | Some res \<Rightarrow>
               if isProbablyPreview (config env) (r_url res) (r_size res) (song_duration song)
               then [res] else [])
        else [])"
proof (cases "returned (primaryStep env st song q)")
  case None
  then show ?thesis
    using aggregatorStep_fields [OF None, of env song q] primaryStep_fields [of env st song q]
    by (simp add: getSongUrl_progress_def Let_def)
next
  case (Some res)
  then show ?thesis
    using primaryStep_fields [of env st song q]
    by (simp add: getSongUrl_progress_def Let_def)
qed

lemma progress_candidates_url:
  assumes "candidates (getSongUrl_progress env st song q) = c # cs"
  shows "r_url c \<noteq> []"
proof -
  from assms have "primaryLookup env song = Some c
      \<or> fst (getSongUrlFromSource env (song_id song) (sourceOf song) q) = Some c"
    unfolding progress_candidates
    by (auto split: option.splits if_splits)
  then show ?thesis using primaryLookup_url getSongUrlFromSource_url by blast
qed

lemma progress_promise_started:
  assumes "crossSourcePromise (getSongUrl_progress env st song q) = Some x"
  shows "candidates (getSongUrl_progress env st song q) \<noteq> []"
proof (cases "crossSourcePromise (primaryStep env st song q)")
  case (Some y)
  then have "candidates (primaryStep env st song q) \<noteq> []"
    by (auto simp: primaryStep_def Let_def startCrossSearch_fields split: option.splits if_splits)
  then have "(case primaryLookup env song of
        None \<Rightarrow> []
      | Some res \<Rightarrow>
          if isProbablyPreview (config env) (r_url res) (r_size res) None then [res] else []) \<noteq> []"
    using primaryStep_fields [of env st song q] by simp
  then show ?thesis unfolding progress_candidates by simp
next
  case None
  show ?thesis
  proof (cases "returned (primaryStep env st song q)")
    case (Some res)
    with None assms show ?thesis by (simp add: getSongUrl_progress_def Let_def)
  next
    case rn: None
    with assms have a: "crossSourcePromise (aggregatorStep env song q (primaryStep env st song q)) = Some x"
      by (simp add: getSongUrl_progress_def Let_def)
    have "candidates (aggregatorStep env song q (primaryStep env st song q)) \<noteq> []"
      using a None
      by (auto simp: aggregatorStep_def Let_def split_def startCrossSearch_fields
          split: option.splits if_splits)
    with rn show ?thesis by (simp add: getSongUrl_progress_def Let_def)
  qed
qed

lemma progress_returned_None:
  "returned (getSongUrl_progress env st song q) = None \<longleftrightarrow>
     (\<forall>r. primaryLookup env song = Some r \<longrightarrow>
            isProbablyPreview (config env) (r_url r) (r_size r) None)
     \<and> (gdAvailable env \<longrightarrow>
          (\<forall>r. fst (getSongUrlFromSource env (song_id song) (sourceOf song) q) = Some r \<longrightarrow>
                 isProbablyPreview (config env) (r_url r) (r_size r) (song_duration song)))"
proof (cases "returned (primaryStep env st song q)")
  case None
  then show ?thesis
    using aggregatorStep_fields [OF None, of env song q] primaryStep_fields [of env st song q]
    by (auto simp: getSongUrl_progress_def Let_def split: option.splits if_splits)
next
  case (Some res)
  then show ?thesis
    using primaryStep_fields [of env st song q]
    by (auto simp: getSongUrl_progress_def Let_def split: option.splits if_splits)
qed

lemma getSongUrl_ret:
  "fst (getSongUrl env st song q) =
     (case returned (getSongUrl_progress env st song q) of
        Some r \<Rightarrow> r
      | None \<Rightarrow> fallbackStep q (getSongUrl_progress env st song q))"
  by (simp add: getSongUrl_def Let_def split: option.splits)

lemma fallbackStep_cases:
  "(crossSourcePromise p = Some (Some r) \<longrightarrow> fallbackStep q p = r)
   \<and> ((crossSourcePromise p = None \<or> crossSourcePromise p = Some None) \<and> candidates p = c # cs
        \<longrightarrow> fallbackStep q p = c)
   \<and> ((crossSourcePromise p = None \<or> crossSourcePromise p = Some None) \<and> candidates p = []
        \<longrightarrow> fallbackStep q p = \<lparr>r_url = [], r_br = q, r_size = None, r_source = None\<rparr>)"
  by (auto simp: fallbackStep_def)

lemma promise_cases:
  "(x :: 'a option option) = None \<or> x = Some None \<or> (\<exists>r. x = Some (Some r))"
  by (cases x) auto

text \<open>The three lookups of a resolution, and what the steps leave behind in terms of them.\<close>

lemma progress_returned_eq:
  assumes "P = primaryLookup env song"
    and "G = fst (getSongUrlFromSource env (song_id song) (sourceOf song) q)"
  shows "returned (getSongUrl_progress env st song q) =
     (case P of
        Some r \<Rightarrow>
          if \<not> isProbablyPreview (config env) (r_url r) (r_size r) None then Some r
          else (case G of
                  None \<Rightarrow> None
                | Some g \<Rightarrow>
                    if isProbablyPreview (config env) (r_url g) (r_size g) (song_duration song)
                    then None else Some g)
      | None \<Rightarrow>
          (case G of
             None \<Rightarrow> None
           | Some g \<Rightarrow>
               if isProbablyPreview (config env) (r_url g) (r_size g) (song_duration song)
               then None else Some g))"
proof (cases "returned (primaryStep env st song q)")
  case None
  have open_None: "\<not> gdAvailable env \<Longrightarrow> G = None"
    unfolding assms(2) by (simp add: getSongUrlFromSource_open)
  from None show ?thesis
    using aggregatorStep_fields [OF None, of env song q] primaryStep_fields [of env st song q]
      open_None
    unfolding assms(1) assms(2) [symmetric]
    by (auto simp: getSongUrl_progress_def Let_def split: option.splits if_splits)
next
  case (Some res)
  then show ?thesis
    using primaryStep_fields [of env st song q]
    unfolding assms(1)
    by (auto simp: getSongUrl_progress_def Let_def split: option.splits if_splits)
qed

lemma primaryStep_promise_eq:
  "crossSourcePromise (primaryStep env st song q) =
     (if (\<exists>r. primaryLookup env song = Some r
              \<and> isProbablyPreview (config env) (r_url r) (r_size r) None)
         \<and> PROACTIVE_CHECK (config env)
      then Some (fst (searchSongFromOtherSources env st (song_name song)
                        (firstArtist (song_artist song)) (sourceOf song) q))
      else None)
   \<and> (crossSourcePromise (primaryStep env st song q) = None
        \<longrightarrow> state (primaryStep env st song q) = st \<and> trace (primaryStep env st song q) = [])"
  by (auto simp: primaryStep_def Let_def startCrossSearch_def split_def split: option.splits)

lemma progress_promise_eq:
  assumes "P = primaryLookup env song"
    and "G = fst (getSongUrlFromSource env (song_id song) (sourceOf song) q)"
    and "X = fst (searchSongFromOtherSources env st (song_name song)
                    (firstArtist (song_artist song)) (sourceOf song) q)"
  shows "crossSourcePromise (getSongUrl_progress env st song q) =
     (if PROACTIVE_CHECK (config env)
         \<and> ((\<exists>r. P = Some r \<and> isProbablyPreview (config env) (r_url r) (r_size r) None)
            \<or> (P = None
               \<and> (\<exists>g. G = Some g
                      \<and> isProbablyPreview (config env) (r_url g) (r_size g) (song_duration song))))
      then Some X else None)"
proof -
  note pp = primaryStep_promise_eq [of env st song q]
  note pf = primaryStep_fields [of env st song q]
  show ?thesis
  proof (cases "returned (primaryStep env st song q)")
    case (Some res)
    with pf pp show ?thesis
      unfolding assms
      by (auto simp: getSongUrl_progress_def Let_def split: option.splits if_splits)
  next
    case None
    let ?p1 = "primaryStep env st song q"
    have g: "getSongUrl_progress env st song q = aggregatorStep env song q ?p1"
      using None by (simp add: getSongUrl_progress_def Let_def)
    show ?thesis
    proof (cases "crossSourcePromise ?p1")
      case (Some x)
      then have keep: "crossSourcePromise (aggregatorStep env song q ?p1) = Some x"
        by (simp add: aggregatorStep_def Let_def split_def split: option.splits)
      from Some pp have "P \<noteq> None" unfolding assms by (auto split: if_splits)
      with Some pp keep show ?thesis
        unfolding g assms by (auto split: if_splits)
    next
      case pn: None
      with pp have st1: "state ?p1 = st" by simp
      from pn pp pf None have nop: "P = None \<or> \<not> PROACTIVE_CHECK (config env)"
        unfolding assms by (auto split: option.splits if_splits)
      have open_None: "\<not> gdAvailable env \<Longrightarrow> G = None"
        unfolding assms(2) by (simp add: getSongUrlFromSource_open)
      have "crossSourcePromise (aggregatorStep env song q ?p1) =
          (if PROACTIVE_CHECK (config env)
              \<and> (\<exists>g. G = Some g
                     \<and> isProbablyPreview (config env) (r_url g) (r_size g) (song_duration song))
           then Some X else None)"
        using pn st1 open_None
        unfolding assms(2) [symmetric] assms(3)
        by (auto simp: aggregatorStep_def Let_def split_def startCrossSearch_def assms(2)
            split: option.splits)
      with nop pf None show ?thesis
        unfolding g assms(1)
        by (auto split: option.splits if_splits)
    qed
  qed
qed

text \<open>
  Claim C1, as the source has it. \<open>getSongUrl\<close> has a result for every song, every
  quality and every behaviour of the catalogs, a thrown error included. A direct lookup,
  in the primary catalog or in the aggregator, that yields a URL not flagged as preview
  is returned at once, before any background search is looked at. When neither direct
  lookup does: the result of a background search that was started and found something
  is returned, and it is never flagged as preview; otherwise the first stashed candidate
  is returned; and with no candidate the result has the empty URL and the requested
  quality. The URL of the result is empty only in that last case. When the primary
  catalog yields a preview and nothing else yields a result, as when the circuit of the
  aggregator is open, the stashed preview is returned. When both direct lookups throw,
  the result is the one with the empty URL.

  In terms of the three lookups, \<open>P\<close> in the primary catalog, \<open>G\<close> in the aggregator and
  the cross-catalog search \<open>X\<close> for the name and the first artist of the song: the result
  is \<open>P\<close> when it is not flagged as preview; else \<open>G\<close> when it is not flagged; else, when
  the proactive check is on and \<open>P\<close> or \<open>G\<close> gave a preview, what \<open>X\<close> found; else \<open>P\<close>
  if there is one, else \<open>G\<close> if there is one; else the result with the empty URL.
\<close>

theorem C1_getSongUrl:
  assumes "p = getSongUrl_progress env st song q"
    and "ret = fst (getSongUrl env st song q)"
    and "sentinel = \<lparr>r_url = [], r_br = q, r_size = None, r_source = None\<rparr>"
    and "P = primaryLookup env song"
    and "G = fst (getSongUrlFromSource env (song_id song) (sourceOf song) q)"
    and "X = fst (searchSongFromOtherSources env st (song_name song)
                    (firstArtist (song_artist song)) (sourceOf song) q)"
    and "noFull \<longleftrightarrow>
           (\<forall>r. P = Some r \<longrightarrow> isProbablyPreview (config env) (r_url r) (r_size r) None)
           \<and> (\<forall>g. G = Some g \<longrightarrow>
                  isProbablyPreview (config env) (r_url g) (r_size g) (song_duration song))"
  shows "(\<forall>r. P = Some r \<and> \<not> isProbablyPreview (config env) (r_url r) (r_size r) None
           \<longrightarrow> ret = r)
    \<and> (\<forall>r. (\<forall>p. P = Some p \<longrightarrow> isProbablyPreview (config env) (r_url p) (r_size p) None)
           \<and> G = Some r
           \<and> \<not> isProbablyPreview (config env) (r_url r) (r_size r) (song_duration song)
           \<longrightarrow> ret = r)
    \<and> (\<forall>r. noFull \<and> PROACTIVE_CHECK (config env) \<and> (P \<noteq> None \<or> G \<noteq> None) \<and> X = Some r
           \<longrightarrow> ret = r)
    \<and> (\<forall>c. noFull \<and> (\<not> PROACTIVE_CHECK (config env) \<or> X = None) \<and> P = Some c
           \<longrightarrow> ret = c)
    \<and> (\<forall>c. noFull \<and> (\<not> PROACTIVE_CHECK (config env) \<or> X = None) \<and> P = None \<and> G = Some c
           \<longrightarrow> ret = c)
    \<and> (P = None \<and> G = None \<longrightarrow> ret = sentinel)
    \<and> (returned p = None \<longleftrightarrow>
            (\<forall>r. primaryLookup env song = Some r \<longrightarrow>
                   isProbablyPreview (config env) (r_url r) (r_size r) None)
            \<and> (gdAvailable env \<longrightarrow>
                (\<forall>r. fst (getSongUrlFromSource env (song_id song) (sourceOf song) q) = Some r \<longrightarrow>
                       isProbablyPreview (config env) (r_url r) (r_size r) (song_duration song))))
    \<and> (\<forall>r. returned p = Some r \<longrightarrow> ret = r \<and> r_url r \<noteq> [])
    \<and> (\<forall>r. returned p = None \<and> crossSourcePromise p = Some (Some r) \<longrightarrow>
           ret = r \<and> r_url r \<noteq> []
           \<and> \<not> isProbablyPreview (config env) (r_url r) (r_size r) None)
    \<and> (\<forall>c cs. returned p = None
           \<and> (crossSourcePromise p = None \<or> crossSourcePromise p = Some None)
           \<and> candidates p = c # cs \<longrightarrow> ret = c)
    \<and> (returned p = None
           \<and> (crossSourcePromise p = None \<or> crossSourcePromise p = Some None)
           \<and> candidates p = [] \<longrightarrow> ret = sentinel)
    \<and> (r_url ret = [] \<longleftrightarrow>
           ret = sentinel \<and> returned p = None \<and> candidates p = [] \<and> crossSourcePromise p = None)
    \<and> (\<forall>pr. primaryLookup env song = Some pr
           \<and> isProbablyPreview (config env) (r_url pr) (r_size pr) None
           \<and> returned p = None
           \<and> (crossSourcePromise p = None \<or> crossSourcePromise p = Some None) \<longrightarrow> ret = pr)
    \<and> (\<forall>pr. primaryLookup env song = Some pr
           \<and> isProbablyPreview (config env) (r_url pr) (r_size pr) None
           \<and> \<not> gdAvailable env \<longrightarrow> ret = pr)
    \<and> ((\<exists>e. necMatch env (song_id song) = Inl e)
         \<and> (\<exists>e. gdUrl env (sourceOf song) (song_id song) q = Inl e) \<longrightarrow> ret = sentinel)"
proof -
  note fb = fallbackStep_cases [of p _ q]
  have ret: "ret = (case returned p of Some r \<Rightarrow> r | None \<Rightarrow> fallbackStep q p)"
    unfolding assms(1,2) by (rule getSongUrl_ret)
  note re = progress_returned_eq [OF assms(4,5), of st]
  note pe = progress_promise_eq [OF assms(4,5,6)]
  have ca: "candidates p =
     (case P of
        None \<Rightarrow> []
      | Some res \<Rightarrow>
          if isProbablyPreview (config env) (r_url res) (r_size res) None then [res] else [])
     @ (if returned (primaryStep env st song q) = None \<and> gdAvailable env then
          (case G of
             None \<Rightarrow> []
           | Some res \<Rightarrow>
               if isProbablyPreview (config env) (r_url res) (r_size res) (song_duration song)
               then [res] else [])
        else [])"
    unfolding assms(1,4,5) by (rule progress_candidates)
  have gav: "G \<noteq> None \<Longrightarrow> gdAvailable env"
    unfolding assms(5) using getSongUrlFromSource_open [of env] by force
  have ps: "returned (primaryStep env st song q) =
     (case P of
        None \<Rightarrow> None
      | Some res \<Rightarrow>
          if isProbablyPreview (config env) (r_url res) (r_size res) None then None else Some res)"
    unfolding assms(4) using primaryStep_fields [of env st song q] by simp
  have x1: "P = Some r \<and> \<not> isProbablyPreview (config env) (r_url r) (r_size r) None
           \<longrightarrow> ret = r" for r
    using ret re by (auto simp: assms(1))
  have x2: "(\<forall>p. P = Some p \<longrightarrow> isProbablyPreview (config env) (r_url p) (r_size p) None)
           \<and> G = Some r
           \<and> \<not> isProbablyPreview (config env) (r_url r) (r_size r) (song_duration song)
           \<longrightarrow> ret = r" for r
    using ret re by (auto simp: assms(1) split: option.splits)
  have rn: "noFull \<Longrightarrow> returned p = None"
    using re unfolding assms(7) by (auto simp: assms(1) split: option.splits)
  have x3: "noFull \<and> PROACTIVE_CHECK (config env) \<and> (P \<noteq> None \<or> G \<noteq> None) \<and> X = Some r
           \<longrightarrow> ret = r" for r
  proof
    assume a: "noFull \<and> PROACTIVE_CHECK (config env) \<and> (P \<noteq> None \<or> G \<noteq> None) \<and> X = Some r"
    then have "crossSourcePromise p = Some (Some r)"
      unfolding assms(1) pe using assms(7) by auto
    with rn a ret fallbackStep_cases [of p r q] show "ret = r" by simp
  qed
  have nox: "noFull \<and> (\<not> PROACTIVE_CHECK (config env) \<or> X = None)
      \<Longrightarrow> crossSourcePromise p = None \<or> crossSourcePromise p = Some None"
    unfolding assms(1) pe by auto
  have x4: "noFull \<and> (\<not> PROACTIVE_CHECK (config env) \<or> X = None) \<and> P = Some c
           \<longrightarrow> ret = c" for c
  proof
    assume a: "noFull \<and> (\<not> PROACTIVE_CHECK (config env) \<or> X = None) \<and> P = Some c"
    then have "isProbablyPreview (config env) (r_url c) (r_size c) None"
      using assms(7) by simp
    with a ca have "candidates p = c # tl (candidates p)" by simp
    with a rn nox ret fallbackStep_cases [of p _ q c "tl (candidates p)"] show "ret = c"
      by simp
  qed
  have x5: "noFull \<and> (\<not> PROACTIVE_CHECK (config env) \<or> X = None) \<and> P = None \<and> G = Some c
           \<longrightarrow> ret = c" for c
  proof
    assume a: "noFull \<and> (\<not> PROACTIVE_CHECK (config env) \<or> X = None) \<and> P = None \<and> G = Some c"
    then have "isProbablyPreview (config env) (r_url c) (r_size c) (song_duration song)"
      using assms(7) by simp
    with a ca ps gav have "candidates p = [c]" by simp
    with a rn nox ret fallbackStep_cases [of p _ q c "[]"] show "ret = c"
      by simp
  qed
  have x6: "P = None \<and> G = None \<longrightarrow> ret = sentinel"
  proof
    assume a: "P = None \<and> G = None"
    with re have r0: "returned p = None" by (simp add: assms(1))
    from a ca have c0: "candidates p = []" by simp
    from a pe have p0: "crossSourcePromise p = None" by (simp add: assms(1))
    from r0 c0 p0 ret fallbackStep_cases [of p _ q] show "ret = sentinel"
      by (simp add: assms(3))
  qed
  have c1: "returned p = None \<longleftrightarrow>
            (\<forall>r. primaryLookup env song = Some r \<longrightarrow>
                   isProbablyPreview (config env) (r_url r) (r_size r) None)
            \<and> (gdAvailable env \<longrightarrow>
                (\<forall>r. fst (getSongUrlFromSource env (song_id song) (sourceOf song) q) = Some r \<longrightarrow>
                       isProbablyPreview (config env) (r_url r) (r_size r) (song_duration song)))"
    unfolding assms(1) by (rule progress_returned_None)
  have c2: "returned p = Some r \<longrightarrow> ret = r \<and> r_url r \<noteq> []" for r
    using ret progress_returned_url [of env st song q r] by (simp add: assms(1))
  have c3: "returned p = None \<and> crossSourcePromise p = Some (Some r) \<longrightarrow>
           ret = r \<and> r_url r \<noteq> []
           \<and> \<not> isProbablyPreview (config env) (r_url r) (r_size r) None" for r
    using ret progress_promise_full [of env st song q r] fallbackStep_cases [of p r q]
    by (simp add: assms(1))
  have c4: "returned p = None
           \<and> (crossSourcePromise p = None \<or> crossSourcePromise p = Some None)
           \<and> candidates p = c # cs \<longrightarrow> ret = c" for c cs
    using ret fallbackStep_cases [of p _ q c cs] by auto
  have c5: "returned p = None
           \<and> (crossSourcePromise p = None \<or> crossSourcePromise p = Some None)
           \<and> candidates p = [] \<longrightarrow> ret = sentinel"
    using ret fallbackStep_cases [of p _ q] by (auto simp: assms(3))
  have started: "candidates p = [] \<Longrightarrow> crossSourcePromise p = None"
    using progress_promise_started [of env st song q] unfolding assms(1)
    by (cases "crossSourcePromise (getSongUrl_progress env st song q)") auto
  have c6: "r_url ret = [] \<longleftrightarrow>
           ret = sentinel \<and> returned p = None \<and> candidates p = [] \<and> crossSourcePromise p = None"
  proof
    assume e: "r_url ret = []"
    have rn: "returned p = None"
    proof (cases "returned p")
      case (Some r)
      with c2 [of r] e show ?thesis by simp
    qed simp
    have pn: "crossSourcePromise p = None \<or> crossSourcePromise p = Some None"
      using promise_cases [of "crossSourcePromise p"] c3 rn e by auto
    have cn: "candidates p = []"
    proof (cases "candidates p")
      case (Cons c cs)
      with c4 [of c cs] rn pn have "ret = c" by simp
      with e progress_candidates_url [of env st song q c cs] Cons show ?thesis
        by (simp add: assms(1))
    qed simp
    from c5 rn pn cn started show
      "ret = sentinel \<and> returned p = None \<and> candidates p = [] \<and> crossSourcePromise p = None"
      by simp
  next
    assume "ret = sentinel \<and> returned p = None \<and> candidates p = [] \<and> crossSourcePromise p = None"
    then show "r_url ret = []" by (simp add: assms(3))
  qed
  have hd_primary: "candidates p = pr # tl (candidates p)"
    if "primaryLookup env song = Some pr"
      "isProbablyPreview (config env) (r_url pr) (r_size pr) None" for pr
    unfolding assms(1) progress_candidates using that by simp
  have c7: "primaryLookup env song = Some pr
           \<and> isProbablyPreview (config env) (r_url pr) (r_size pr) None
           \<and> returned p = None
           \<and> (crossSourcePromise p = None \<or> crossSourcePromise p = Some None) \<longrightarrow> ret = pr" for pr
    using c4 [of pr "tl (candidates p)"] hd_primary [of pr] by blast
  have c8: "primaryLookup env song = Some pr
           \<and> isProbablyPreview (config env) (r_url pr) (r_size pr) None
           \<and> \<not> gdAvailable env \<longrightarrow> ret = pr" for pr
  proof
    assume a: "primaryLookup env song = Some pr
           \<and> isProbablyPreview (config env) (r_url pr) (r_size pr) None
           \<and> \<not> gdAvailable env"
    then have rn: "returned p = None" unfolding c1 by simp
    from a have "\<And>r. crossSourcePromise p \<noteq> Some (Some r)"
      unfolding assms(1) using progress_promise_open by blast
    then have "crossSourcePromise p = None \<or> crossSourcePromise p = Some None"
      using promise_cases [of "crossSourcePromise p"] by blast
    with a rn c7 [of pr] show "ret = pr" by blast
  qed
  have c9: "(\<exists>e. necMatch env (song_id song) = Inl e)
         \<and> (\<exists>e. gdUrl env (sourceOf song) (song_id song) q = Inl e) \<longrightarrow> ret = sentinel"
  proof
    assume a: "(\<exists>e. necMatch env (song_id song) = Inl e)
         \<and> (\<exists>e. gdUrl env (sourceOf song) (song_id song) q = Inl e)"
    then have pl: "primaryLookup env song = None"
      using primaryLookup_throws by blast
    from a have gl: "fst (getSongUrlFromSource env (song_id song) (sourceOf song) q) = None"
      using getSongUrlFromSource_throws by blast
    from pl gl have rn: "returned p = None" unfolding c1 by simp
    from pl gl have cn: "candidates p = []"
      unfolding assms(1) progress_candidates by simp
    from c5 rn cn started [OF cn] show "ret = sentinel" by simp
  qed
  from x1 x2 x3 x4 x5 x6 have ext:
    "(\<forall>r. P = Some r \<and> \<not> isProbablyPreview (config env) (r_url r) (r_size r) None
           \<longrightarrow> ret = r)
    \<and> (\<forall>r. (\<forall>p. P = Some p \<longrightarrow> isProbablyPreview (config env) (r_url p) (r_size p) None)
           \<and> G = Some r
           \<and> \<not> isProbablyPreview (config env) (r_url r) (r_size r) (song_duration song)
           \<longrightarrow> ret = r)
    \<and> (\<forall>r. noFull \<and> PROACTIVE_CHECK (config env) \<and> (P \<noteq> None \<or> G \<noteq> None) \<and> X = Some r
           \<longrightarrow> ret = r)
    \<and> (\<forall>c. noFull \<and> (\<not> PROACTIVE_CHECK (config env) \<or> X = None) \<and> P = Some c
           \<longrightarrow> ret = c)
    \<and> (\<forall>c. noFull \<and> (\<not> PROACTIVE_CHECK (config env) \<or> X = None) \<and> P = None \<and> G = Some c
           \<longrightarrow> ret = c)
    \<and> (P = None \<and> G = None \<longrightarrow> ret = sentinel)"
    by blast
  from c1 c2 c3 c4 c5 c6 c7 c8 c9 have int:
    "(returned p = None \<longleftrightarrow>
            (\<forall>r. primaryLookup env song = Some r \<longrightarrow>
                   isProbablyPreview (config env) (r_url r) (r_size r) None)
            \<and> (gdAvailable env \<longrightarrow>
                (\<forall>r. fst (getSongUrlFromSource env (song_id song) (sourceOf song) q) = Some r \<longrightarrow>
                       isProbablyPreview (config env) (r_url r) (r_size r) (song_duration song))))
    \<and> (\<forall>r. returned p = Some r \<longrightarrow> ret = r \<and> r_url r \<noteq> [])
    \<and> (\<forall>r. returned p = None \<and> crossSourcePromise p = Some (Some r) \<longrightarrow>
           ret = r \<and> r_url r \<noteq> []
           \<and> \<not> isProbablyPreview (config env) (r_url r) (r_size r) None)
    \<and> (\<forall>c cs. returned p = None
           \<and> (crossSourcePromise p = None \<or> crossSourcePromise p = Some None)
           \<and> candidates p = c # cs \<longrightarrow> ret = c)
    \<and> (returned p = None
           \<and> (crossSourcePromise p = None \<or> crossSourcePromise p = Some None)
           \<and> candidates p = [] \<longrightarrow> ret = sentinel)
    \<and> (r_url ret = [] \<longleftrightarrow>
           ret = sentinel \<and> returned p = None \<and> candidates p = [] \<and> crossSourcePromise p = None)
    \<and> (\<forall>pr. primaryLookup env song = Some pr
           \<and> isProbablyPreview (config env) (r_url pr) (r_size pr) None
           \<and> returned p = None
           \<and> (crossSourcePromise p = None \<or> crossSourcePromise p = Some None) \<longrightarrow> ret = pr)
    \<and> (\<forall>pr. primaryLookup env song = Some pr
           \<and> isProbablyPreview (config env) (r_url pr) (r_size pr) None
           \<and> \<not> gdAvailable env \<longrightarrow> ret = pr)
    \<and> ((\<exists>e. necMatch env (song_id song) = Inl e)
         \<and> (\<exists>e. gdUrl env (sourceOf song) (song_id song) q = Inl e) \<longrightarrow> ret = sentinel)"
    by blast
  from conjI [OF ext int] show ?thesis unfolding conj_assoc .
qed

theorem C1_getSongUrl_witness:
  "primaryLookup exampleEnvPrimaryFull exampleSong
     = Some \<lparr>r_url = js ''http://m/full.mp3'', r_br = js ''320000'', r_size = Some 5000000,
             r_source = None\<rparr>
   \<and> \<not> isProbablyPreview (config exampleEnvPrimaryFull) (js ''http://m/full.mp3'')
         (Some 5000000) None
   \<and> fst (getSongUrl exampleEnvPrimaryFull emptyState exampleSong (js ''320''))
     = \<lparr>r_url = js ''http://m/full.mp3'', r_br = js ''320000'', r_size = Some 5000000,
        r_source = None\<rparr>
   \<and> primaryLookup exampleEnv exampleSong
     = Some \<lparr>r_url = js ''http://m/a.mp3'', r_br = js ''128000'', r_size = Some 51200, r_source = None\<rparr>
   \<and> isProbablyPreview (config exampleEnv) (js ''http://m/a.mp3'') (Some 51200) None
   \<and> fst (getSongUrlFromSource exampleEnv (js ''1001'') (js ''netease'') (js ''320''))
     = Some \<lparr>r_url = js ''http://g/full.mp3'', r_br = js ''320'', r_size = Some 8192000,
             r_source = None\<rparr>
   \<and> \<not> isProbablyPreview (config exampleEnv) (js ''http://g/full.mp3'') (Some 8192000) None
   \<and> fst (getSongUrl exampleEnv emptyState exampleSong (js ''320''))
     = \<lparr>r_url = js ''http://g/full.mp3'', r_br = js ''320'', r_size = Some 8192000,
        r_source = None\<rparr>
   \<and> primaryLookup exampleEnvSweep exampleSong
     = Some \<lparr>r_url = js ''http://m/a.mp3'', r_br = js ''128000'', r_size = Some 51200, r_source = None\<rparr>
   \<and> fst (getSongUrlFromSource exampleEnvSweep (js ''1001'') (js ''netease'') (js ''320'')) = None
   \<and> fst (searchSongFromOtherSources exampleEnvSweep emptyState (js ''Love Story'')
            (Some (js ''Taylor Swift'')) (js ''netease'') (js ''320''))
     = Some \<lparr>r_url = js ''http://k/first.mp3'', r_br = js ''128'', r_size = Some 4096000,
             r_source = Some (js ''kuwo'')\<rparr>
   \<and> fst (getSongUrl exampleEnvSweep emptyState exampleSong (js ''320''))
     = \<lparr>r_url = js ''http://k/first.mp3'', r_br = js ''128'', r_size = Some 4096000,
        r_source = Some (js ''kuwo'')\<rparr>
   \<and> primaryLookup exampleEnvOpen exampleSong
     = Some \<lparr>r_url = js ''http://m/a.mp3'', r_br = js ''128000'', r_size = Some 51200, r_source = None\<rparr>
   \<and> \<not> gdAvailable exampleEnvOpen
   \<and> fst (searchSongFromOtherSources exampleEnvOpen emptyState (js ''Love Story'')
            (Some (js ''Taylor Swift'')) (js ''netease'') (js ''320'')) = None
   \<and> fst (getSongUrl exampleEnvOpen emptyState exampleSong (js ''320''))
     = \<lparr>r_url = js ''http://m/a.mp3'', r_br = js ''128000'', r_size = Some 51200, r_source = None\<rparr>
   \<and> fst (getSongUrl (exampleEnv\<lparr>necMatch := \<lambda>i. Inl OtherError, gdUrl := \<lambda>s i b. Inl OtherError\<rparr>)
            emptyState exampleSong (js ''320''))
     = \<lparr>r_url = [], r_br = js ''320'', r_size = None, r_source = None\<rparr>"
proof -
  let ?q = "js ''320''"
  let ?pr = "\<lparr>r_url = js ''http://m/a.mp3'', r_br = js ''128000'', r_size = Some 51200,
              r_source = None\<rparr>"
  let ?pf = "\<lparr>r_url = js ''http://m/full.mp3'', r_br = js ''320000'', r_size = Some 5000000,
              r_source = None\<rparr>"
  let ?gf = "\<lparr>r_url = js ''http://g/full.mp3'', r_br = js ''320'', r_size = Some 8192000,
              r_source = None\<rparr>"
  let ?kf = "\<lparr>r_url = js ''http://k/first.mp3'', r_br = js ''128'', r_size = Some 4096000,
              r_source = Some (js ''kuwo'')\<rparr>"
  let ?envF = "exampleEnv\<lparr>necMatch := \<lambda>i. Inl OtherError, gdUrl := \<lambda>s i b. Inl OtherError\<rparr>"
  have sg: "song_id exampleSong = js ''1001''" "sourceOf exampleSong = js ''netease''"
    "song_name exampleSong = js ''Love Story''"
    "firstArtist (song_artist exampleSong) = Some (js ''Taylor Swift'')"
    "song_duration exampleSong = None"
    by code_simp+
  have a1: "primaryLookup exampleEnvPrimaryFull exampleSong = Some ?pf" by code_simp
  have a2: "\<not> isProbablyPreview (config exampleEnvPrimaryFull) (js ''http://m/full.mp3'')
         (Some 5000000) None" by code_simp
  note A = C1_getSongUrl [where env = exampleEnvPrimaryFull and st = emptyState
      and song = exampleSong and q = ?q, OF refl refl refl refl refl refl refl]
  have a3: "fst (getSongUrl exampleEnvPrimaryFull emptyState exampleSong ?q) = ?pf"
    using A [THEN conjunct1, rule_format, of ?pf] a1 a2 by simp
  have b1: "primaryLookup exampleEnv exampleSong = Some ?pr" by code_simp
  have b2: "isProbablyPreview (config exampleEnv) (js ''http://m/a.mp3'') (Some 51200) None"
    by code_simp
  have b3: "fst (getSongUrlFromSource exampleEnv (js ''1001'') (js ''netease'') ?q) = Some ?gf"
    by code_simp
  have b4: "\<not> isProbablyPreview (config exampleEnv) (js ''http://g/full.mp3'') (Some 8192000) None"
    by code_simp
  note B = C1_getSongUrl [where env = exampleEnv and st = emptyState
      and song = exampleSong and q = ?q, OF refl refl refl refl refl refl refl]
  have b5: "fst (getSongUrl exampleEnv emptyState exampleSong ?q) = ?gf"
    using B [THEN conjunct2, THEN conjunct1, rule_format, of ?gf] b1 b2 b3 b4
    by (simp add: sg)
  have c1: "primaryLookup exampleEnvSweep exampleSong = Some ?pr" by code_simp
  have c2: "isProbablyPreview (config exampleEnvSweep) (js ''http://m/a.mp3'') (Some 51200) None"
    by code_simp
  have c3: "fst (getSongUrlFromSource exampleEnvSweep (js ''1001'') (js ''netease'') ?q) = None"
    by code_simp
  have c4: "fst (searchSongFromOtherSources exampleEnvSweep emptyState (js ''Love Story'')
            (Some (js ''Taylor Swift'')) (js ''netease'') ?q) = Some ?kf"
    by code_simp
  have c5: "PROACTIVE_CHECK (config exampleEnvSweep)" by code_simp
  note C = C1_getSongUrl [where env = exampleEnvSweep and st = emptyState
      and song = exampleSong and q = ?q, OF refl refl refl refl refl refl refl]
  have c6: "fst (getSongUrl exampleEnvSweep emptyState exampleSong ?q) = ?kf"
    using C [THEN conjunct2, THEN conjunct2, THEN conjunct1, rule_format, of ?kf] c1 c2 c3 c4 c5
    by (simp add: sg)
  have d1: "primaryLookup exampleEnvOpen exampleSong = Some ?pr" by code_simp
  have d2: "isProbablyPreview (config exampleEnvOpen) (js ''http://m/a.mp3'') (Some 51200) None"
    by code_simp
  have d3: "\<not> gdAvailable exampleEnvOpen" by code_simp
  have d4: "fst (getSongUrlFromSource exampleEnvOpen (js ''1001'') (js ''netease'') ?q) = None"
    by code_simp
  have d5: "fst (searchSongFromOtherSources exampleEnvOpen emptyState (js ''Love Story'')
            (Some (js ''Taylor Swift'')) (js ''netease'') ?q) = None"
    by code_simp
  note D = C1_getSongUrl [where env = exampleEnvOpen and st = emptyState
      and song = exampleSong and q = ?q, OF refl refl refl refl refl refl refl]
  have d6: "fst (getSongUrl exampleEnvOpen emptyState exampleSong ?q) = ?pr"
    using D [THEN conjunct2, THEN conjunct2, THEN conjunct2, THEN conjunct1, rule_format, of ?pr]
      d1 d2 d4 d5
    by (simp add: sg)
  have e1: "primaryLookup ?envF exampleSong = None" by code_simp
  have e2: "fst (getSongUrlFromSource ?envF (js ''1001'') (js ''netease'') ?q) = None"
    by code_simp
  note E = C1_getSongUrl [where env = ?envF and st = emptyState
      and song = exampleSong and q = ?q, OF refl refl refl refl refl refl refl]
  have e3: "fst (getSongUrl ?envF emptyState exampleSong ?q)
     = \<lparr>r_url = [], r_br = ?q, r_size = None, r_source = None\<rparr>"
    using E [THEN conjunct2, THEN conjunct2, THEN conjunct2, THEN conjunct2, THEN conjunct2,
        THEN conjunct1] e1 e2
    by (simp add: sg)
  from a1 a2 a3 b1 b2 b3 b4 b5 c1 c3 c4 c6 d1 d3 d5 d6 e3 show ?thesis
    by (intro conjI)
qed

text \<open>
  The claim as it is written fails: the primary catalog yields a preview, which is
  stashed, and the background search is started and finds a full file at kuwo; then the
  aggregator resolves the song itself to a full file, and that one is returned at once:
  neither the result of the background search nor the stashed candidate.
\<close>

theorem C1_counterexample:
  "candidates (getSongUrl_progress exampleEnv emptyState exampleSong (js ''320''))
     = [\<lparr>r_url = js ''http://m/a.mp3'', r_br = js ''128000'', r_size = Some 51200, r_source = None\<rparr>]
   \<and> crossSourcePromise (getSongUrl_progress exampleEnv emptyState exampleSong (js ''320''))
     = Some (Some \<lparr>r_url = js ''http://k/full.mp3'', r_br = js ''128'', r_size = Some 4096000,
                   r_source = Some (js ''kuwo'')\<rparr>)
   \<and> fst (getSongUrl exampleEnv emptyState exampleSong (js ''320''))
     = \<lparr>r_url = js ''http://g/full.mp3'', r_br = js ''320'', r_size = Some 8192000, r_source = None\<rparr>"
  by code_simp

section \<open>The guard against a second search\<close>

lemma tryGetFullVersion_blocked:
  "inFlightKey song \<in> set (crossSourceSearchInProgress st) \<Longrightarrow>
     tryGetFullVersion_body search st song q = (Inr None, st, [])"
  by (simp add: tryGetFullVersion_body_def)

lemma tryGetFullVersion_started:
  assumes "inFlightKey song \<notin> set (crossSourceSearchInProgress st)"
    and "st1 = st\<lparr>crossSourceSearchInProgress := crossSourceSearchInProgress st @ [inFlightKey song]\<rparr>"
    and "run = search st1 (song_name song) (firstArtist (song_artist song)) (sourceOf song) q"
  shows "tryGetFullVersion_body search st song q =
     (fst run,
      (fst (snd run))\<lparr>crossSourceSearchInProgress :=
         removeAll (inFlightKey song) (crossSourceSearchInProgress (fst (snd run)))\<rparr>,
      snd (snd run))"
  using assms by (simp add: tryGetFullVersion_body_def Let_def split_def)

text \<open>The sweep with no other task is the sweep; and of the other tasks, only what they
  do in the state in which the sweep was called matters.\<close>

lemma searchSongFromOtherSources_await_idle:
  "searchSongFromOtherSources_await env idle st n a x q = searchSongFromOtherSources env st n a x q"
  by (simp add: searchSongFromOtherSources_await_def searchSongFromOtherSources_def idle_def
      Let_def split_def)

lemma searchSongFromOtherSources_await_cong:
  "others st = others' st \<Longrightarrow>
     searchSongFromOtherSources_await env others st n a x q
     = searchSongFromOtherSources_await env others' st n a x q"
  by (simp add: searchSongFromOtherSources_await_def)

lemma searchSongFromOtherSources_await_fields:
  "(fst (searchSongFromOtherSources_await env others st n a x q),
    fst (snd (searchSongFromOtherSources_await env others st n a x q))) =
     tally env
       (map (\<lambda>s. (s, fst (searchSingleSource env s n a)))
          (getSortedFallbackSources (sourceSuccessCount st) x)) (fst (others st))
   \<and> snd (snd (searchSongFromOtherSources_await env others st n a x q)) =
       snd (snd (searchSongFromOtherSources env st n a x q)) @ snd (others st)"
  by (simp add: searchSongFromOtherSources_await_def searchSongFromOtherSources_def Let_def
      split_def comp_def)

lemma tally_inFlight:
  "crossSourceSearchInProgress (snd (tally env rs st)) = crossSourceSearchInProgress st"
proof (induction rs arbitrary: st)
  case Nil
  then show ?case by (simp add: saveSourceStats_fields)
next
  case (Cons r rs)
  obtain s res where r: "r = (s, res)" by (cases r)
  show ?case
  proof (cases res)
    case None
    with r show ?thesis
      using Cons.IH [of "st\<lparr>sourceFailCount := bump (sourceFailCount st) s\<rparr>"] by simp
  next
    case (Some v)
    with r show ?thesis by (simp add: saveSourceStats_fields)
  qed
qed

lemma searchSongFromOtherSources_await_inFlight:
  "crossSourceSearchInProgress (fst (snd (searchSongFromOtherSources_await env others st n a x q)))
     = crossSourceSearchInProgress (fst (others st))"
proof -
  let ?rs = "map (\<lambda>s. (s, fst (searchSingleSource env s n a)))
          (getSortedFallbackSources (sourceSuccessCount st) x)"
  from searchSongFromOtherSources_await_fields [of env others st n a x q]
  have "fst (snd (searchSongFromOtherSources_await env others st n a x q))
        = snd (tally env ?rs (fst (others st)))"
    by (metis snd_conv)
  then show ?thesis by (simp only: tally_inFlight)
qed

lemma tryGetFullVersionFromOtherSources_blocked:
  "inFlightKey song \<in> set (crossSourceSearchInProgress st) \<Longrightarrow>
     tryGetFullVersionFromOtherSources env others st song q = (Inr None, st, [])"
  unfolding tryGetFullVersionFromOtherSources_def by (rule tryGetFullVersion_blocked)

lemma tryGetFullVersionFromOtherSources_started:
  assumes "inFlightKey song \<notin> set (crossSourceSearchInProgress st)"
    and "st1 = st\<lparr>crossSourceSearchInProgress := crossSourceSearchInProgress st @ [inFlightKey song]\<rparr>"
    and "sweep = searchSongFromOtherSources_await env others st1 (song_name song)
                   (firstArtist (song_artist song)) (sourceOf song) q"
  shows "tryGetFullVersionFromOtherSources env others st song q =
     (Inr (fst sweep),
      (fst (snd sweep))\<lparr>crossSourceSearchInProgress :=
         removeAll (inFlightKey song) (crossSourceSearchInProgress (fst (snd sweep)))\<rparr>,
      snd (snd sweep))"
  unfolding tryGetFullVersionFromOtherSources_def
  using assms by (simp add: tryGetFullVersion_started [OF assms(1) refl refl] split_def Let_def)

lemma duplicateCall_blocked:
  "inFlightKey song \<in> set (crossSourceSearchInProgress st) \<Longrightarrow>
     duplicateCall env song q st = idle st"
  by (simp add: duplicateCall_def idle_def tryGetFullVersionFromOtherSources_blocked)

lemma tryGetFullVersionFromOtherSources_duplicate:
  assumes "inFlightKey song \<notin> set (crossSourceSearchInProgress st)"
  shows "tryGetFullVersionFromOtherSources env (duplicateCall env song q2) st song q
         = tryGetFullVersionFromOtherSources env idle st song q"
proof -
  let ?st1 = "st\<lparr>crossSourceSearchInProgress := crossSourceSearchInProgress st @ [inFlightKey song]\<rparr>"
  have "duplicateCall env song q2 ?st1 = idle ?st1"
    by (rule duplicateCall_blocked) simp
  then have "searchSongFromOtherSources_await env (duplicateCall env song q2) ?st1 (song_name song)
                   (firstArtist (song_artist song)) (sourceOf song) q
           = searchSongFromOtherSources_await env idle ?st1 (song_name song)
                   (firstArtist (song_artist song)) (sourceOf song) q"
    by (rule searchSongFromOtherSources_await_cong)
  then show ?thesis
    by (simp only: tryGetFullVersionFromOtherSources_started [OF assms refl refl])
qed

text \<open>
  Claim C6. The key of a call is the id of the song, an underscore and its source tag.
  A call that finds its key in the in-flight set returns null at once: the state is
  left as it is and nothing is started. Any other call adds the key, calls the sweep for
  the name and the first artist of the song in the state that holds the key, and that is
  the state the other tasks find while the call waits; it returns what the sweep resolves
  to, and leaves the state of the sweep with the key taken out of the in-flight set, so
  that the set does not hold the key, whatever the other tasks did. The body does so for
  every behaviour of the search it awaits, a rejection included. A second call for the
  same song that another task makes while the first one waits returns null and changes
  nothing: the two calls together make exactly one sweep, and the first call returns
  what it returns with no other task. With no other task the in-flight set is in the end
  what it was before the call.
\<close>

theorem C6_inFlight_guard:
  assumes "key = inFlightKey song"
    and "st1 = st\<lparr>crossSourceSearchInProgress := crossSourceSearchInProgress st @ [key]\<rparr>"
    and "run = search st1 (song_name song) (firstArtist (song_artist song)) (sourceOf song) q"
    and "out = tryGetFullVersion_body search st song q"
    and "sweep = searchSongFromOtherSources_await env others st1 (song_name song)
                   (firstArtist (song_artist song)) (sourceOf song) q"
    and "call = tryGetFullVersionFromOtherSources env others st song q"
    and "X = searchSongFromOtherSources env st1 (song_name song)
               (firstArtist (song_artist song)) (sourceOf song) q"
    and "alone = tryGetFullVersionFromOtherSources env idle st song q"
  shows "key = song_id song @ js ''_''
             @ (case song_source song of None \<Rightarrow> js ''undefined'' | Some s \<Rightarrow> s)
    \<and> (key \<in> set (crossSourceSearchInProgress st) \<longrightarrow> out = (Inr None, st, []))
    \<and> (key \<in> set (crossSourceSearchInProgress st) \<longrightarrow> call = (Inr None, st, []))
    \<and> (key \<notin> set (crossSourceSearchInProgress st) \<longrightarrow>
          key \<in> set (crossSourceSearchInProgress st1)
          \<and> fst out = fst run
          \<and> snd (snd out) = snd (snd run)
          \<and> crossSourceSearchInProgress (fst (snd out))
              = removeAll key (crossSourceSearchInProgress (fst (snd run)))
          \<and> key \<notin> set (crossSourceSearchInProgress (fst (snd out))))
    \<and> (key \<notin> set (crossSourceSearchInProgress st) \<longrightarrow>
          tryGetFullVersion_body
            (\<lambda>s n a x q'. tryGetFullVersion_body search s song q') st song q
          = (Inr None, st, []))
    \<and> (key \<notin> set (crossSourceSearchInProgress st) \<longrightarrow>
          call = (Inr (fst sweep),
                  (fst (snd sweep))\<lparr>crossSourceSearchInProgress :=
                     removeAll key (crossSourceSearchInProgress (fst (snd sweep)))\<rparr>,
                  snd (snd sweep))
          \<and> key \<notin> set (crossSourceSearchInProgress (fst (snd call))))
    \<and> (fst sweep, fst (snd sweep)) =
         tally env
           (map (\<lambda>s. (s, fst (searchSingleSource env s (song_name song)
                                 (firstArtist (song_artist song)))))
              (getSortedFallbackSources (sourceSuccessCount st) (sourceOf song)))
           (fst (others st1))
    \<and> snd (snd sweep) = snd (snd X) @ snd (others st1)
    \<and> (key \<notin> set (crossSourceSearchInProgress st) \<longrightarrow>
          alone = (Inr (fst X),
                   (fst (snd X))\<lparr>crossSourceSearchInProgress := crossSourceSearchInProgress st\<rparr>,
                   snd (snd X))
          \<and> filter isCallSweep (snd (snd alone))
            = [CallSweep (song_name song) (firstArtist (song_artist song)) (sourceOf song) q])
    \<and> (key \<notin> set (crossSourceSearchInProgress st) \<longrightarrow>
          duplicateCall env song q2 st1 = (st1, [])
          \<and> tryGetFullVersionFromOtherSources env (duplicateCall env song q2) st song q = alone)"
proof -
  note n = assms(2) [unfolded assms(1)]
  have k: "key = song_id song @ js ''_''
             @ (case song_source song of None \<Rightarrow> js ''undefined'' | Some s \<Rightarrow> s)"
    by (simp add: assms(1) inFlightKey_def)
  have b1: "key \<in> set (crossSourceSearchInProgress st) \<longrightarrow> out = (Inr None, st, [])"
    unfolding assms(1,4) using tryGetFullVersion_blocked by blast
  have b2: "key \<in> set (crossSourceSearchInProgress st) \<longrightarrow> call = (Inr None, st, [])"
    unfolding assms(1,6) using tryGetFullVersionFromOtherSources_blocked by blast
  have s1: "key \<notin> set (crossSourceSearchInProgress st) \<longrightarrow>
          key \<in> set (crossSourceSearchInProgress st1)
          \<and> fst out = fst run
          \<and> snd (snd out) = snd (snd run)
          \<and> crossSourceSearchInProgress (fst (snd out))
              = removeAll key (crossSourceSearchInProgress (fst (snd run)))
          \<and> key \<notin> set (crossSourceSearchInProgress (fst (snd out)))"
  proof
    assume n: "key \<notin> set (crossSourceSearchInProgress st)"
    have "out = (fst run,
      (fst (snd run))\<lparr>crossSourceSearchInProgress :=
         removeAll key (crossSourceSearchInProgress (fst (snd run)))\<rparr>,
      snd (snd run))"
      unfolding assms(4)
      using tryGetFullVersion_started [of song st st1 run search q] n assms(1,2,3) by simp
    then show "key \<in> set (crossSourceSearchInProgress st1)
          \<and> fst out = fst run
          \<and> snd (snd out) = snd (snd run)
          \<and> crossSourceSearchInProgress (fst (snd out))
              = removeAll key (crossSourceSearchInProgress (fst (snd run)))
          \<and> key \<notin> set (crossSourceSearchInProgress (fst (snd out)))"
      by (simp add: assms(2))
  qed
  have s2: "key \<notin> set (crossSourceSearchInProgress st) \<longrightarrow>
          tryGetFullVersion_body
            (\<lambda>s n a x q'. tryGetFullVersion_body search s song q') st song q
          = (Inr None, st, [])"
  proof
    assume n: "key \<notin> set (crossSourceSearchInProgress st)"
    let ?st1 = "st\<lparr>crossSourceSearchInProgress := crossSourceSearchInProgress st @ [inFlightKey song]\<rparr>"
    have inner: "tryGetFullVersion_body search ?st1 song q = (Inr None, ?st1, [])"
      by (rule tryGetFullVersion_blocked) simp
    have "removeAll (inFlightKey song) (crossSourceSearchInProgress st @ [inFlightKey song])
          = crossSourceSearchInProgress st"
      using n by (simp add: assms(1))
    then show "tryGetFullVersion_body
            (\<lambda>s n a x q'. tryGetFullVersion_body search s song q') st song q
          = (Inr None, st, [])"
      using n inner
      by (simp add: tryGetFullVersion_started [OF _ refl refl] assms(1))
  qed
  have s3: "key \<notin> set (crossSourceSearchInProgress st) \<longrightarrow>
          call = (Inr (fst sweep),
                  (fst (snd sweep))\<lparr>crossSourceSearchInProgress :=
                     removeAll key (crossSourceSearchInProgress (fst (snd sweep)))\<rparr>,
                  snd (snd sweep))
          \<and> key \<notin> set (crossSourceSearchInProgress (fst (snd call)))"
  proof
    assume "key \<notin> set (crossSourceSearchInProgress st)"
    then have a: "inFlightKey song \<notin> set (crossSourceSearchInProgress st)"
      by (simp add: assms(1))
    have c: "call = (Inr (fst sweep),
                  (fst (snd sweep))\<lparr>crossSourceSearchInProgress :=
                     removeAll key (crossSourceSearchInProgress (fst (snd sweep)))\<rparr>,
                  snd (snd sweep))"
      unfolding assms(6) assms(1)
      by (rule tryGetFullVersionFromOtherSources_started [OF a n assms(5)])
    then show "call = (Inr (fst sweep),
                  (fst (snd sweep))\<lparr>crossSourceSearchInProgress :=
                     removeAll key (crossSourceSearchInProgress (fst (snd sweep)))\<rparr>,
                  snd (snd sweep))
          \<and> key \<notin> set (crossSourceSearchInProgress (fst (snd call)))"
      by simp
  qed
  have s4: "(fst sweep, fst (snd sweep)) =
         tally env
           (map (\<lambda>s. (s, fst (searchSingleSource env s (song_name song)
                                 (firstArtist (song_artist song)))))
              (getSortedFallbackSources (sourceSuccessCount st) (sourceOf song)))
           (fst (others st1))"
    unfolding assms(5)
    using searchSongFromOtherSources_await_fields [of env others st1 "song_name song"
        "firstArtist (song_artist song)" "sourceOf song" q]
    by (simp add: assms(2))
  have s5: "snd (snd sweep) = snd (snd X) @ snd (others st1)"
    unfolding assms(5,7)
    using searchSongFromOtherSources_await_fields [of env others st1 "song_name song"
        "firstArtist (song_artist song)" "sourceOf song" q]
    by simp
  have s6: "key \<notin> set (crossSourceSearchInProgress st) \<longrightarrow>
          alone = (Inr (fst X),
                   (fst (snd X))\<lparr>crossSourceSearchInProgress := crossSourceSearchInProgress st\<rparr>,
                   snd (snd X))
          \<and> filter isCallSweep (snd (snd alone))
            = [CallSweep (song_name song) (firstArtist (song_artist song)) (sourceOf song) q]"
  proof
    assume kn: "key \<notin> set (crossSourceSearchInProgress st)"
    then have a: "inFlightKey song \<notin> set (crossSourceSearchInProgress st)"
      by (simp add: assms(1))
    have x: "searchSongFromOtherSources_await env idle st1 (song_name song)
                   (firstArtist (song_artist song)) (sourceOf song) q = X"
      unfolding assms(7) by (rule searchSongFromOtherSources_await_idle)
    have i: "crossSourceSearchInProgress (fst (snd X)) = crossSourceSearchInProgress st1"
      unfolding x [symmetric] searchSongFromOtherSources_await_inFlight
      by (simp add: idle_def)
    have r: "removeAll key (crossSourceSearchInProgress st1) = crossSourceSearchInProgress st"
      using kn by (simp add: assms(2))
    have c: "alone = (Inr (fst X),
                  (fst (snd X))\<lparr>crossSourceSearchInProgress :=
                     removeAll key (crossSourceSearchInProgress (fst (snd X)))\<rparr>,
                  snd (snd X))"
      unfolding assms(8) assms(1)
      by (rule tryGetFullVersionFromOtherSources_started [OF a n x [symmetric]])
    have f: "filter isCallSweep (snd (snd X))
            = [CallSweep (song_name song) (firstArtist (song_artist song)) (sourceOf song) q]"
      unfolding assms(7) by (simp add: searchSongFromOtherSources_calls)
    from c i r f show "alone = (Inr (fst X),
                   (fst (snd X))\<lparr>crossSourceSearchInProgress := crossSourceSearchInProgress st\<rparr>,
                   snd (snd X))
          \<and> filter isCallSweep (snd (snd alone))
            = [CallSweep (song_name song) (firstArtist (song_artist song)) (sourceOf song) q]"
      by simp
  qed
  have s7: "key \<notin> set (crossSourceSearchInProgress st) \<longrightarrow>
          duplicateCall env song q2 st1 = (st1, [])
          \<and> tryGetFullVersionFromOtherSources env (duplicateCall env song q2) st song q = alone"
  proof
    assume kn: "key \<notin> set (crossSourceSearchInProgress st)"
    then have a: "inFlightKey song \<notin> set (crossSourceSearchInProgress st)"
      by (simp add: assms(1))
    have "inFlightKey song \<in> set (crossSourceSearchInProgress st1)"
      by (simp add: assms(1,2))
    then have d: "duplicateCall env song q2 st1 = (st1, [])"
      using duplicateCall_blocked [of song st1 env q2] by (simp add: idle_def)
    have e: "tryGetFullVersionFromOtherSources env (duplicateCall env song q2) st song q = alone"
      unfolding assms(8) by (rule tryGetFullVersionFromOtherSources_duplicate [OF a])
    from d e show "duplicateCall env song q2 st1 = (st1, [])
          \<and> tryGetFullVersionFromOtherSources env (duplicateCall env song q2) st song q = alone"
      by (rule conjI)
  qed
  from k b1 b2 s1 s2 s3 s4 s5 s6 s7 show ?thesis by (intro conjI)
qed

theorem C6_inFlight_guard_witness:
  "inFlightKey exampleSong = js ''1001_netease''
   \<and> tryGetFullVersionFromOtherSources exampleEnv idle
        (emptyState\<lparr>crossSourceSearchInProgress := [js ''1001_netease'']\<rparr>) exampleSong (js ''320'')
     = (Inr None, emptyState\<lparr>crossSourceSearchInProgress := [js ''1001_netease'']\<rparr>, [])
   \<and> fst (tryGetFullVersion_body (\<lambda>s n a x q. (Inl OtherError, s, []))
            (emptyState\<lparr>crossSourceSearchInProgress := [js ''7_kuwo'']\<rparr>) exampleSong (js ''320''))
     = Inl OtherError
   \<and> crossSourceSearchInProgress (fst (snd (tryGetFullVersion_body
            (\<lambda>s n a x q. (Inl OtherError, s, []))
            (emptyState\<lparr>crossSourceSearchInProgress := [js ''7_kuwo'']\<rparr>) exampleSong (js ''320''))))
     = [js ''7_kuwo'']
   \<and> fst (tryGetFullVersionFromOtherSources exampleEnv idle emptyState exampleSong (js ''320''))
     = Inr (Some \<lparr>r_url = js ''http://k/full.mp3'', r_br = js ''128'', r_size = Some 4096000,
                   r_source = Some (js ''kuwo'')\<rparr>)
   \<and> crossSourceSearchInProgress
        (fst (snd (tryGetFullVersionFromOtherSources exampleEnv idle emptyState exampleSong (js ''320''))))
     = []
   \<and> duplicateCall exampleEnv exampleSong (js ''128'')
        (emptyState\<lparr>crossSourceSearchInProgress := [js ''1001_netease'']\<rparr>)
     = (emptyState\<lparr>crossSourceSearchInProgress := [js ''1001_netease'']\<rparr>, [])
   \<and> fst (tryGetFullVersionFromOtherSources exampleEnv (duplicateCall exampleEnv exampleSong (js ''128''))
            emptyState exampleSong (js ''320''))
     = Inr (Some \<lparr>r_url = js ''http://k/full.mp3'', r_br = js ''128'', r_size = Some 4096000,
                   r_source = Some (js ''kuwo'')\<rparr>)
   \<and> filter isCallSweep
        (snd (snd (tryGetFullVersionFromOtherSources exampleEnv
                     (duplicateCall exampleEnv exampleSong (js ''128''))
                     emptyState exampleSong (js ''320''))))
     = [CallSweep (js ''Love Story'') (Some (js ''Taylor Swift'')) (js ''netease'') (js ''320'')]"
proof -
  let ?q = "js ''320''"
  let ?busy = "emptyState\<lparr>crossSourceSearchInProgress := [js ''1001_netease'']\<rparr>"
  let ?other = "emptyState\<lparr>crossSourceSearchInProgress := [js ''7_kuwo'']\<rparr>"
  let ?throw = "\<lambda>(s :: State) (n :: jsstring) (a :: jsstring option) (x :: jsstring) (q :: jsstring).
                  (Inl OtherError :: JsError + SongUrlResult option, s, [] :: event list)"
  let ?dup = "duplicateCall exampleEnv exampleSong (js ''128'')"
  let ?kf = "\<lparr>r_url = js ''http://k/full.mp3'', r_br = js ''128'', r_size = Some 4096000,
              r_source = Some (js ''kuwo'')\<rparr>"
  have k: "inFlightKey exampleSong = js ''1001_netease''" by code_simp
  have sg: "sourceOf exampleSong = js ''netease''"
    "song_name exampleSong = js ''Love Story''"
    "firstArtist (song_artist exampleSong) = Some (js ''Taylor Swift'')"
    by code_simp+
  have i: "inFlightKey exampleSong \<in> set (crossSourceSearchInProgress ?busy)"
    unfolding k by simp
  have n: "inFlightKey exampleSong \<notin> set (crossSourceSearchInProgress ?other)"
    unfolding k by code_simp
  have n0: "inFlightKey exampleSong \<notin> set (crossSourceSearchInProgress emptyState)"
    by (simp add: emptyState_def)
  have e0: "crossSourceSearchInProgress emptyState = []" by (simp add: emptyState_def)
  have st1: "emptyState\<lparr>crossSourceSearchInProgress :=
               crossSourceSearchInProgress emptyState @ [inFlightKey exampleSong]\<rparr> = ?busy"
    by (simp add: k e0)
  have x: "fst (searchSongFromOtherSources exampleEnv ?busy (js ''Love Story'')
                  (Some (js ''Taylor Swift'')) (js ''netease'') ?q) = Some ?kf"
    by code_simp
  note B = C6_inFlight_guard [where song = exampleSong and st = ?busy and search = ?throw
      and q = ?q and env = exampleEnv and others = idle and ?q2.0 = "js ''128''",
      OF refl refl refl refl refl refl refl refl]
  have a: "tryGetFullVersionFromOtherSources exampleEnv idle ?busy exampleSong ?q
     = (Inr None, ?busy, [])"
    using i B [THEN conjunct2, THEN conjunct2, THEN conjunct1] by simp
  note T = C6_inFlight_guard [where song = exampleSong and st = ?other and search = ?throw
      and q = ?q and env = exampleEnv and others = idle and ?q2.0 = "js ''128''",
      OF refl refl refl refl refl refl refl refl]
  note T4 = T [THEN conjunct2, THEN conjunct2, THEN conjunct2, THEN conjunct1, rule_format, OF n]
  have b: "fst (tryGetFullVersion_body ?throw ?other exampleSong ?q) = Inl OtherError"
    using T4 by simp
  have c: "crossSourceSearchInProgress (fst (snd (tryGetFullVersion_body ?throw ?other
             exampleSong ?q))) = [js ''7_kuwo'']"
  proof -
    from T4 have "crossSourceSearchInProgress (fst (snd (tryGetFullVersion_body ?throw ?other
             exampleSong ?q)))
      = removeAll (inFlightKey exampleSong) (crossSourceSearchInProgress ?other @ [inFlightKey exampleSong])"
      by simp
    also have "\<dots> = [js ''7_kuwo'']" unfolding k by code_simp
    finally show ?thesis .
  qed
  note F = C6_inFlight_guard [where song = exampleSong and st = emptyState and search = ?throw
      and q = ?q and env = exampleEnv and others = idle and ?q2.0 = "js ''128''",
      OF refl refl refl refl refl refl refl refl]
  note F9 = F [THEN conjunct2, THEN conjunct2, THEN conjunct2, THEN conjunct2, THEN conjunct2,
      THEN conjunct2, THEN conjunct2, THEN conjunct2, THEN conjunct1, rule_format, OF n0]
  note F10 = F [THEN conjunct2, THEN conjunct2, THEN conjunct2, THEN conjunct2, THEN conjunct2,
      THEN conjunct2, THEN conjunct2, THEN conjunct2, THEN conjunct2, rule_format, OF n0]
  have d: "fst (tryGetFullVersionFromOtherSources exampleEnv idle emptyState exampleSong ?q)
     = Inr (Some ?kf)"
    using F9 [THEN conjunct1] x by (simp add: sg st1)
  have e: "crossSourceSearchInProgress
        (fst (snd (tryGetFullVersionFromOtherSources exampleEnv idle emptyState exampleSong ?q)))
     = []"
    using F9 [THEN conjunct1] by (simp add: e0)
  have f: "?dup ?busy = (?busy, [])"
    using F10 [THEN conjunct1] by (simp only: st1)
  have g: "tryGetFullVersionFromOtherSources exampleEnv ?dup emptyState exampleSong ?q
           = tryGetFullVersionFromOtherSources exampleEnv idle emptyState exampleSong ?q"
    using F10 [THEN conjunct2] .
  have h: "filter isCallSweep
        (snd (snd (tryGetFullVersionFromOtherSources exampleEnv idle emptyState exampleSong ?q)))
     = [CallSweep (js ''Love Story'') (Some (js ''Taylor Swift'')) (js ''netease'') ?q]"
    using F9 [THEN conjunct2] by (simp only: sg)
  from k a b c d e f d [folded g] h [folded g] show ?thesis by (intro conjI)
qed
section \<open>The target artist of the cross-catalog search\<close>

lemma targets_marks:
  assumes "set evs \<subseteq> {MarkAvailable, MarkUnavailable}"
  shows "list_all (targets n a) evs"
proof -
  from assms have "\<forall>e\<in>set evs. targets n a e"
    by (auto simp: targets_def)
  then show ?thesis by (simp add: list_all_iff)
qed

lemma searchSingleSource_targets:
  "list_all (targets n a) (snd (searchSingleSource env s n a))"
proof -
  have c: "targets n a (CallSearch s n a)" by (simp add: targets_def)
  show ?thesis
    unfolding searchSingleSource_def Let_def split_def
    by (simp add: c targets_marks [OF tryQualities_events] split: sum.splits list.splits
        del: tryQualities.simps)
qed

lemma searchSongFromOtherSources_targets:
  "list_all (targets n a) (snd (snd (searchSongFromOtherSources env st n a x q)))"
proof -
  have "list_all (targets n a)
          (concat (map (\<lambda>s. snd (searchSingleSource env s n a)) srcs))" for srcs
    by (induction srcs) (simp_all add: searchSingleSource_targets)
  then show ?thesis
    by (simp add: searchSongFromOtherSources_def Let_def split_def comp_def targets_def)
qed

lemma startCrossSearch_targets:
  assumes "list_all (targets (song_name song) (firstArtist (song_artist song))) (trace p)"
  shows "list_all (targets (song_name song) (firstArtist (song_artist song)))
           (trace (startCrossSearch env song q p))"
  using assms searchSongFromOtherSources_targets
  by (simp add: startCrossSearch_def split_def Let_def)

lemma primaryStep_targets:
  "list_all (targets (song_name song) (firstArtist (song_artist song)))
     (trace (primaryStep env st song q))"
  by (simp add: primaryStep_def Let_def startCrossSearch_targets split: option.splits)

lemma aggregatorStep_targets:
  assumes "list_all (targets (song_name song) (firstArtist (song_artist song))) (trace p)"
  shows "list_all (targets (song_name song) (firstArtist (song_artist song)))
           (trace (aggregatorStep env song q p))"
proof -
  have m: "list_all (targets (song_name song) (firstArtist (song_artist song)))
             (snd (getSongUrlFromSource env (song_id song) (sourceOf song) q))"
    by (rule targets_marks [OF getSongUrlFromSource_events])
  show ?thesis
    unfolding aggregatorStep_def Let_def split_def
    using assms m by (simp add: startCrossSearch_targets split: option.splits)
qed

lemma getSongUrl_targets:
  "list_all (targets (song_name song) (firstArtist (song_artist song)))
     (snd (snd (getSongUrl env st song q)))"
proof -
  have "list_all (targets (song_name song) (firstArtist (song_artist song)))
          (trace (getSongUrl_progress env st song q))"
    unfolding getSongUrl_progress_def Let_def
    by (simp add: primaryStep_targets aggregatorStep_targets split: option.splits)
  then show ?thesis by (simp add: getSongUrl_def Let_def split: option.splits)
qed

lemma tryGetFullVersionFromOtherSources_targets:
  "list_all (targets (song_name song) (firstArtist (song_artist song)))
     (snd (snd (tryGetFullVersionFromOtherSources env idle st song q)))"
  unfolding tryGetFullVersionFromOtherSources_def tryGetFullVersion_body_def Let_def split_def
    searchSongFromOtherSources_await_idle
  by (simp add: searchSongFromOtherSources_targets)

text \<open>The result depends on the artist of the song through its first name only.\<close>

lemma getSongUrl_first_artist:
  assumes "firstArtist (song_artist song) = firstArtist (song_artist song')"
    and "song' = song\<lparr>song_artist := x\<rparr>"
  shows "getSongUrl env st song' q = getSongUrl env st song q"
proof -
  have so: "sourceOf song' = sourceOf song" by (simp add: assms(2) sourceOf_def)
  have id: "song_id song' = song_id song" by (simp add: assms(2))
  have nm: "song_name song' = song_name song" by (simp add: assms(2))
  have du: "song_duration song' = song_duration song" by (simp add: assms(2))
  have pl: "primaryLookup env song' = primaryLookup env song"
    unfolding primaryLookup_def so id ..
  have sc: "startCrossSearch env song' q p = startCrossSearch env song q p" for p
    unfolding startCrossSearch_def so nm assms(1) [symmetric] ..
  have ps: "primaryStep env st song' q = primaryStep env st song q"
    unfolding primaryStep_def pl sc ..
  have ag: "aggregatorStep env song' q p = aggregatorStep env song q p" for p
    unfolding aggregatorStep_def so sc id du ..
  show ?thesis
    unfolding getSongUrl_def getSongUrl_progress_def ps ag ..
qed

lemma tryGetFullVersionFromOtherSources_first_artist:
  assumes "firstArtist (song_artist song) = firstArtist (song_artist song')"
    and "song' = song\<lparr>song_artist := x\<rparr>"
  shows "tryGetFullVersionFromOtherSources env others st song' q
         = tryGetFullVersionFromOtherSources env others st song q"
proof -
  have so: "sourceOf song' = sourceOf song" by (simp add: assms(2) sourceOf_def)
  have nm: "song_name song' = song_name song" by (simp add: assms(2))
  have ky: "inFlightKey song' = inFlightKey song" by (simp add: assms(2) inFlightKey_def)
  show ?thesis
    unfolding tryGetFullVersionFromOtherSources_def tryGetFullVersion_body_def
      so nm ky assms(1) [symmetric] ..
qed

text \<open>The sweeps in the trace of \<open>getSongUrl\<close>: one if the background search was started.\<close>

lemma startCrossSearch_sweeps:
  assumes "filter isCallSweep (trace p) = []"
  shows "filter isCallSweep (trace (startCrossSearch env song q p))
         = [CallSweep (song_name song) (firstArtist (song_artist song)) (sourceOf song) q]
         \<and> crossSourcePromise (startCrossSearch env song q p) \<noteq> None"
  using assms
  by (simp add: startCrossSearch_def split_def Let_def searchSongFromOtherSources_calls)

lemma primaryStep_sweeps:
  "filter isCallSweep (trace (primaryStep env st song q)) =
     (if crossSourcePromise (primaryStep env st song q) = None then []
      else [CallSweep (song_name song) (firstArtist (song_artist song)) (sourceOf song) q])"
  by (simp add: primaryStep_def Let_def startCrossSearch_sweeps split: option.splits)

lemma aggregatorStep_sweeps:
  assumes "filter isCallSweep (trace p) =
     (if crossSourcePromise p = None then []
      else [CallSweep (song_name song) (firstArtist (song_artist song)) (sourceOf song) q])"
  shows "filter isCallSweep (trace (aggregatorStep env song q p)) =
     (if crossSourcePromise (aggregatorStep env song q p) = None then []
      else [CallSweep (song_name song) (firstArtist (song_artist song)) (sourceOf song) q])"
proof (cases "gdAvailable env")
  case False
  with assms show ?thesis by (simp add: aggregatorStep_def)
next
  case True
  let ?g = "getSongUrlFromSource env (song_id song) (sourceOf song) q"
  let ?p1 = "p\<lparr>trace := trace p @ snd ?g\<rparr>"
  have m: "filter isCallSweep (snd ?g) = []"
    using filter_marks [OF getSongUrlFromSource_events] by blast
  have t1: "filter isCallSweep (trace ?p1) = filter isCallSweep (trace p)"
    by (simp add: m)
  show ?thesis
  proof (cases "fst ?g")
    case None
    with True assms t1 show ?thesis
      by (simp add: aggregatorStep_def Let_def split_def)
  next
    case (Some res)
    show ?thesis
    proof (cases "isProbablyPreview (config env) (r_url res) (r_size res) (song_duration song)")
      case False
      with True Some assms t1 show ?thesis
        by (simp add: aggregatorStep_def Let_def split_def)
    next
      case pv: True
      let ?p2 = "?p1\<lparr>candidates := candidates ?p1 @ [res]\<rparr>"
      show ?thesis
      proof (cases "crossSourcePromise p")
        case (Some y)
        with True \<open>fst ?g = Some res\<close> pv assms t1 show ?thesis
          by (simp add: aggregatorStep_def Let_def split_def)
      next
        case None
        show ?thesis
        proof (cases "PROACTIVE_CHECK (config env)")
          case False
          with None True \<open>fst ?g = Some res\<close> pv assms t1 show ?thesis
            by (simp add: aggregatorStep_def Let_def split_def)
        next
          case st: True
          from None assms t1 have e: "filter isCallSweep (trace ?p2) = []" by simp
          have a: "aggregatorStep env song q p = startCrossSearch env song q ?p2"
            using True \<open>fst ?g = Some res\<close> pv st None
            by (simp add: aggregatorStep_def Let_def split_def)
          show ?thesis
            unfolding a using startCrossSearch_sweeps [OF e, of env song q] by simp
        qed
      qed
    qed
  qed
qed

lemma getSongUrl_sweeps:
  "filter isCallSweep (snd (snd (getSongUrl env st song q))) =
     (if crossSourcePromise (getSongUrl_progress env st song q) = None then []
      else [CallSweep (song_name song) (firstArtist (song_artist song)) (sourceOf song) q])"
proof -
  have "filter isCallSweep (trace (getSongUrl_progress env st song q)) =
     (if crossSourcePromise (getSongUrl_progress env st song q) = None then []
      else [CallSweep (song_name song) (firstArtist (song_artist song)) (sourceOf song) q])"
    unfolding getSongUrl_progress_def Let_def
    using primaryStep_sweeps [of env st song q]
      aggregatorStep_sweeps [OF primaryStep_sweeps [of env st song q], where env = env]
    by (simp split: option.splits)
  then show ?thesis by (simp add: getSongUrl_def Let_def split: option.splits)
qed

text \<open>The candidate that a search of one source takes: the scores are sorted in
  descending order by a stable sort, so the first one is the first candidate of the
  highest score.\<close>

lemma js_sort_fsub:
  "js_sort (\<lambda>a b. fsub (f b) (f a)) xs = sort_key (\<lambda>x. - f x) xs"
proof -
  have c: "fsub (f y) (f x) \<le> 0 \<longleftrightarrow> - f x \<le> - f y" for x y
    unfolding fsub_def using round64_sign [of "f y - f x"] by simp
  have ins: "insort_cmp (\<lambda>a b. fsub (f b) (f a)) x ys = insort_key (\<lambda>x. - f x) x ys" for x ys
    by (induction ys) (simp_all add: c)
  show ?thesis
    unfolding js_sort_def sort_key_def by (induction xs) (simp_all add: ins)
qed

lemma insort_key_first:
  "\<forall>y\<in>set ys. f c \<le> f y \<Longrightarrow> insort_key f c ys = c # ys"
  by (cases ys) simp_all

lemma foldr_insort_key_head:
  "\<forall>x\<in>set pre. f c < f x \<Longrightarrow>
     \<exists>rest. foldr (insort_key f) pre (c # zs) = c # rest"
proof (induction pre)
  case Nil
  then show ?case by simp
next
  case (Cons x pre)
  then obtain rest where r: "foldr (insort_key f) pre (c # zs) = c # rest" by auto
  from Cons.prems have "\<not> f x \<le> f c" by auto
  then show ?case by (simp add: r)
qed

lemma sort_key_best:
  assumes "\<forall>x\<in>set pre. f c < f x" and "\<forall>x\<in>set post. f c \<le> f x"
  shows "\<exists>rest. sort_key f (pre @ c # post) = c # rest"
proof -
  have "insort_key f c (sort_key f post) = c # sort_key f post"
    by (rule insort_key_first) (simp add: assms(2))
  then have "sort_key f (pre @ c # post) = foldr (insort_key f) pre (c # sort_key f post)"
    by (simp add: sort_key_def)
  then show ?thesis using foldr_insort_key_head [OF assms(1)] by simp
qed

lemma scoreAll_Some:
  "scoreAll lower n (Some a) songs =
     Inr (map (\<lambda>s. (s, fadd (fmul (calculateSimilarity lower n (gs_name s)) (round64 (3 / 5)))
                         (fmul (calculateSimilarity lower a
                                  (case gs_artist s of ArtistList xs \<Rightarrow> join (js ''/'') xs
                                   | ArtistName c \<Rightarrow> c)) (round64 (2 / 5))))) songs)"
  by (induction songs) (simp_all add: calculateSongMatchScore_def Let_def)

lemma searchSingleSource_sorted:
  assumes "gdAvailable env"
    and "gdSearch env s (n @ js '' '' @ a) = Inr songs"
    and "score = (\<lambda>x. fadd (fmul (calculateSimilarity (toLowerCase env) n (gs_name x))
                              (round64 (3 / 5)))
                        (fmul (calculateSimilarity (toLowerCase env) a
                                 (case gs_artist x of ArtistList xs \<Rightarrow> join (js ''/'') xs
                                  | ArtistName c \<Rightarrow> c)) (round64 (2 / 5))))"
  shows "fst (searchSingleSource env s n (Some a)) =
     (case sort_key (\<lambda>m. - snd m)
             (filter (\<lambda>m. SIMILARITY_THRESHOLD (config env) < snd m)
                (map (\<lambda>x. (x, score x)) songs)) of
        [] \<Rightarrow> None
      | b # _ \<Rightarrow> fst (tryQualities env s (gs_id (fst b)) [js ''128'', js ''320'']))"
  unfolding searchSingleSource_def Let_def
  using assms(1,2)
  by (simp add: scoreAll_Some js_sort_fsub assms(3) split_def split: list.splits
      del: tryQualities.simps)

lemma searchSingleSource_best:
  assumes "gdAvailable env"
    and "gdSearch env s (n @ js '' '' @ a) = Inr (pre @ c # post)"
    and "score = (\<lambda>x. fadd (fmul (calculateSimilarity (toLowerCase env) n (gs_name x))
                              (round64 (3 / 5)))
                        (fmul (calculateSimilarity (toLowerCase env) a
                                 (case gs_artist x of ArtistList xs \<Rightarrow> join (js ''/'') xs
                                  | ArtistName c \<Rightarrow> c)) (round64 (2 / 5))))"
    and "SIMILARITY_THRESHOLD (config env) < score c"
    and "\<forall>x\<in>set pre. score x < score c"
    and "\<forall>x\<in>set post. score x \<le> score c"
  shows "fst (searchSingleSource env s n (Some a))
         = fst (tryQualities env s (gs_id c) [js ''128'', js ''320''])"
proof -
  let ?P = "\<lambda>m :: GdSong \<times> jsnumber. SIMILARITY_THRESHOLD (config env) < snd m"
  let ?g = "\<lambda>x. (x, score x)"
  have f: "filter ?P (map ?g (pre @ c # post))
           = filter ?P (map ?g pre) @ (c, score c) # filter ?P (map ?g post)"
    using assms(4) by simp
  have a: "\<forall>x\<in>set (filter ?P (map ?g pre)). - snd (c, score c) < - snd x"
    using assms(5) by auto
  have b: "\<forall>x\<in>set (filter ?P (map ?g post)). - snd (c, score c) \<le> - snd x"
    using assms(6) by auto
  from sort_key_best [OF a b] obtain rest where
    "sort_key (\<lambda>m. - snd m) (filter ?P (map ?g (pre @ c # post))) = (c, score c) # rest"
    unfolding f by blast
  then show ?thesis
    unfolding searchSingleSource_sorted [OF assms(1,2,3)] by simp
qed

lemma searchSingleSource_none:
  assumes "gdAvailable env"
    and "gdSearch env s (n @ js '' '' @ a) = Inr songs"
    and "score = (\<lambda>x. fadd (fmul (calculateSimilarity (toLowerCase env) n (gs_name x))
                              (round64 (3 / 5)))
                        (fmul (calculateSimilarity (toLowerCase env) a
                                 (case gs_artist x of ArtistList xs \<Rightarrow> join (js ''/'') xs
                                  | ArtistName c \<Rightarrow> c)) (round64 (2 / 5))))"
    and "\<forall>x\<in>set songs. score x \<le> SIMILARITY_THRESHOLD (config env)"
  shows "fst (searchSingleSource env s n (Some a)) = None"
proof -
  have "filter (\<lambda>m. SIMILARITY_THRESHOLD (config env) < snd m) (map (\<lambda>x. (x, score x)) songs) = []"
    using assms(4) by (auto simp: filter_empty_conv)
  then show ?thesis
    unfolding searchSingleSource_sorted [OF assms(1,2,3)] by simp
qed

text \<open>
  Claim C10. The target artist of a song is what \<open>song.artist[0]\<close> is for a list (its
  first name; undefined for the empty list) and the artist itself for a string.

  A call of \<open>tryGetFullVersionFromOtherSources\<close> that is not blocked returns what the
  cross-catalog search for the name of the song and that target artist resolves to, and
  its trace holds that one call and one search of each source of the ranked roster for
  the same name and artist. \<open>getSongUrl\<close> starts its background search, when it starts
  one, for the name and that target artist; its trace holds that call and no other, and
  a result of the search that is returned is the result for that target. In every trace
  of the two functions, each call of the cross-catalog search and each search of a single
  source has that name and that artist as its target. So for a song whose artist is the
  list of \<open>a\<close> and further names, both functions do what they do for the song with the
  single artist \<open>a\<close>.

  The cross-catalog search gives the target to each search of a single source and
  returns the result of the first source of the roster that has one. A search of a
  single source for the target artist \<open>a\<close> gives each candidate the score 0.6 times the
  similarity of the names plus 0.4 times the similarity of \<open>a\<close> and the artist of the
  candidate, a list being joined with a slash first, in the arithmetic of the program;
  it resolves the first candidate of the highest score, if that score is above the
  threshold, and has no result when no score is.
\<close>

theorem C10_first_artist:
  assumes "nm = song_name song"
    and "fa = firstArtist (song_artist song)"
    and "src = sourceOf song"
    and "st1 = st\<lparr>crossSourceSearchInProgress :=
                   crossSourceSearchInProgress st @ [inFlightKey song]\<rparr>"
    and "p = getSongUrl_progress env st song q"
    and "score = (\<lambda>n t x.
           fadd (fmul (calculateSimilarity (toLowerCase env) n (gs_name x)) (round64 (3 / 5)))
                (fmul (calculateSimilarity (toLowerCase env) t
                         (case gs_artist x of ArtistList xs \<Rightarrow> join (js ''/'') xs
                          | ArtistName c \<Rightarrow> c)) (round64 (2 / 5))))"
  shows "firstArtist (ArtistList (a # rest)) = Some a
   \<and> firstArtist (ArtistList []) = None
   \<and> firstArtist (ArtistName a) = Some a
   \<and> (inFlightKey song \<notin> set (crossSourceSearchInProgress st) \<longrightarrow>
        fst (tryGetFullVersionFromOtherSources env idle st song q)
          = Inr (fst (searchSongFromOtherSources env st1 nm fa src q))
        \<and> filter isCallSweep (snd (snd (tryGetFullVersionFromOtherSources env idle st song q)))
          = [CallSweep nm fa src q]
        \<and> filter isCallSearch (snd (snd (tryGetFullVersionFromOtherSources env idle st song q)))
          = map (\<lambda>s. CallSearch s nm fa) (getSortedFallbackSources (sourceSuccessCount st) src))
   \<and> crossSourcePromise p =
       (if PROACTIVE_CHECK (config env)
           \<and> ((\<exists>r. primaryLookup env song = Some r
                    \<and> isProbablyPreview (config env) (r_url r) (r_size r) None)
              \<or> (primaryLookup env song = None
                 \<and> (\<exists>g. fst (getSongUrlFromSource env (song_id song) src q) = Some g
                        \<and> isProbablyPreview (config env) (r_url g) (r_size g)
                            (song_duration song))))
        then Some (fst (searchSongFromOtherSources env st nm fa src q)) else None)
   \<and> filter isCallSweep (snd (snd (getSongUrl env st song q)))
       = (if crossSourcePromise p = None then [] else [CallSweep nm fa src q])
   \<and> (\<forall>r. returned p = None
           \<and> fst (searchSongFromOtherSources env st nm fa src q) = Some r
           \<and> crossSourcePromise p \<noteq> None
        \<longrightarrow> fst (getSongUrl env st song q) = r)
   \<and> list_all (targets nm fa) (snd (snd (getSongUrl env st song q)))
   \<and> list_all (targets nm fa) (snd (snd (tryGetFullVersionFromOtherSources env idle st song q)))
   \<and> (targets n t (CallSweep n' t' x q') \<longleftrightarrow> n' = n \<and> t' = t)
   \<and> (targets n t (CallSearch s n' t') \<longleftrightarrow> n' = n \<and> t' = t)
   \<and> getSongUrl env st (song\<lparr>song_artist := ArtistList (a # rest)\<rparr>) q
       = getSongUrl env st (song\<lparr>song_artist := ArtistName a\<rparr>) q
   \<and> tryGetFullVersionFromOtherSources env others st (song\<lparr>song_artist := ArtistList (a # rest)\<rparr>) q
       = tryGetFullVersionFromOtherSources env others st (song\<lparr>song_artist := ArtistName a\<rparr>) q
   \<and> fst (searchSongFromOtherSources env st n t x q') =
       (case find (\<lambda>s. fst (searchSingleSource env s n t) \<noteq> None)
               (getSortedFallbackSources (sourceSuccessCount st) x) of
          None \<Rightarrow> None
        | Some w \<Rightarrow> fst (searchSingleSource env w n t))
   \<and> (\<forall>pre c post.
         gdAvailable env
         \<and> gdSearch env s (n @ js '' '' @ a) = Inr (pre @ c # post)
         \<and> SIMILARITY_THRESHOLD (config env) < score n a c
         \<and> (\<forall>y\<in>set pre. score n a y < score n a c)
         \<and> (\<forall>y\<in>set post. score n a y \<le> score n a c)
        \<longrightarrow> fst (searchSingleSource env s n (Some a))
            = fst (tryQualities env s (gs_id c) [js ''128'', js ''320'']))
   \<and> (\<forall>songs.
         gdAvailable env
         \<and> gdSearch env s (n @ js '' '' @ a) = Inr songs
         \<and> (\<forall>y\<in>set songs. score n a y \<le> SIMILARITY_THRESHOLD (config env))
        \<longrightarrow> fst (searchSingleSource env s n (Some a)) = None)
   \<and> scoreAll (toLowerCase env) n (Some a) songs = Inr (map (\<lambda>y. (y, score n a y)) songs)
   \<and> calculateSongMatchScore (toLowerCase env) n (Some a) (gs_name cand) (gs_artist cand)
       = Inr (score n a cand)
   \<and> calculateSongMatchScore lower n t cn (ArtistList xs)
       = calculateSongMatchScore lower n t cn (ArtistName (join (js ''/'') xs))
   \<and> join (js ''/'') [js ''A'', js ''B''] = js ''A/B''"
proof -
  have f: "firstArtist (ArtistList (a # rest)) = Some a" "firstArtist (ArtistList []) = None"
    "firstArtist (ArtistName a) = Some a"
    by (simp_all add: firstArtist_def)
  have l: "inFlightKey song \<notin> set (crossSourceSearchInProgress st) \<longrightarrow>
        fst (tryGetFullVersionFromOtherSources env idle st song q)
          = Inr (fst (searchSongFromOtherSources env st1 nm fa src q))
        \<and> filter isCallSweep (snd (snd (tryGetFullVersionFromOtherSources env idle st song q)))
          = [CallSweep nm fa src q]
        \<and> filter isCallSearch (snd (snd (tryGetFullVersionFromOtherSources env idle st song q)))
          = map (\<lambda>s. CallSearch s nm fa) (getSortedFallbackSources (sourceSuccessCount st) src)"
  proof
    assume k: "inFlightKey song \<notin> set (crossSourceSearchInProgress st)"
    have c: "sourceSuccessCount st1 = sourceSuccessCount st" by (simp add: assms(4))
    note e = tryGetFullVersionFromOtherSources_started [OF k assms(4) refl, of env idle q]
    show "fst (tryGetFullVersionFromOtherSources env idle st song q)
          = Inr (fst (searchSongFromOtherSources env st1 nm fa src q))
        \<and> filter isCallSweep (snd (snd (tryGetFullVersionFromOtherSources env idle st song q)))
          = [CallSweep nm fa src q]
        \<and> filter isCallSearch (snd (snd (tryGetFullVersionFromOtherSources env idle st song q)))
          = map (\<lambda>s. CallSearch s nm fa) (getSortedFallbackSources (sourceSuccessCount st) src)"
      unfolding e searchSongFromOtherSources_await_idle assms(1,2,3)
      by (simp add: searchSongFromOtherSources_calls c)
  qed
  have pr: "crossSourcePromise p =
       (if PROACTIVE_CHECK (config env)
           \<and> ((\<exists>r. primaryLookup env song = Some r
                    \<and> isProbablyPreview (config env) (r_url r) (r_size r) None)
              \<or> (primaryLookup env song = None
                 \<and> (\<exists>g. fst (getSongUrlFromSource env (song_id song) src q) = Some g
                        \<and> isProbablyPreview (config env) (r_url g) (r_size g)
                            (song_duration song))))
        then Some (fst (searchSongFromOtherSources env st nm fa src q)) else None)"
    unfolding assms(1,2,3,5) by (rule progress_promise_eq [OF refl refl refl])
  have sw: "filter isCallSweep (snd (snd (getSongUrl env st song q)))
       = (if crossSourcePromise p = None then [] else [CallSweep nm fa src q])"
    unfolding assms(1,2,3,5) by (rule getSongUrl_sweeps)
  have rs: "returned p = None
           \<and> fst (searchSongFromOtherSources env st nm fa src q) = Some r
           \<and> crossSourcePromise p \<noteq> None
        \<longrightarrow> fst (getSongUrl env st song q) = r" for r
  proof
    assume a: "returned p = None
           \<and> fst (searchSongFromOtherSources env st nm fa src q) = Some r
           \<and> crossSourcePromise p \<noteq> None"
    with pr have "crossSourcePromise p = Some (Some r)" by (simp split: if_splits)
    with a getSongUrl_ret [of env st song q] fallbackStep_cases [of p r q]
    show "fst (getSongUrl env st song q) = r"
      by (simp add: assms(5))
  qed
  have t1: "targets n t (CallSweep n' t' x q') \<longleftrightarrow> n' = n \<and> t' = t"
    by (simp add: targets_def)
  have t2: "targets n t (CallSearch s n' t') \<longleftrightarrow> n' = n \<and> t' = t"
    by (simp add: targets_def)
  have g1: "list_all (targets nm fa) (snd (snd (getSongUrl env st song q)))"
    unfolding assms(1,2) by (rule getSongUrl_targets)
  have g2: "list_all (targets nm fa)
              (snd (snd (tryGetFullVersionFromOtherSources env idle st song q)))"
    unfolding assms(1,2) by (rule tryGetFullVersionFromOtherSources_targets)
  have i1: "getSongUrl env st (song\<lparr>song_artist := ArtistList (a # rest)\<rparr>) q
       = getSongUrl env st (song\<lparr>song_artist := ArtistName a\<rparr>) q"
    by (rule getSongUrl_first_artist [where x = "ArtistList (a # rest)"])
       (simp_all add: firstArtist_def)
  have i2: "tryGetFullVersionFromOtherSources env others st
              (song\<lparr>song_artist := ArtistList (a # rest)\<rparr>) q
       = tryGetFullVersionFromOtherSources env others st (song\<lparr>song_artist := ArtistName a\<rparr>) q"
    by (rule tryGetFullVersionFromOtherSources_first_artist [where x = "ArtistList (a # rest)"])
       (simp_all add: firstArtist_def)
  have fs: "fst (searchSongFromOtherSources env st n t x q') =
       (case find (\<lambda>s. fst (searchSingleSource env s n t) \<noteq> None)
               (getSortedFallbackSources (sourceSuccessCount st) x) of
          None \<Rightarrow> None
        | Some w \<Rightarrow> fst (searchSingleSource env w n t))"
    by (rule searchSongFromOtherSources_result)
  have sc: "(\<lambda>y. fadd (fmul (calculateSimilarity (toLowerCase env) n (gs_name y))
                              (round64 (3 / 5)))
                        (fmul (calculateSimilarity (toLowerCase env) a
                                 (case gs_artist y of ArtistList xs \<Rightarrow> join (js ''/'') xs
                                  | ArtistName c \<Rightarrow> c)) (round64 (2 / 5)))) = score n a"
    by (simp add: assms(6))
  have b: "gdAvailable env
         \<and> gdSearch env s (n @ js '' '' @ a) = Inr (pre @ c # post)
         \<and> SIMILARITY_THRESHOLD (config env) < score n a c
         \<and> (\<forall>y\<in>set pre. score n a y < score n a c)
         \<and> (\<forall>y\<in>set post. score n a y \<le> score n a c)
        \<longrightarrow> fst (searchSingleSource env s n (Some a))
            = fst (tryQualities env s (gs_id c) [js ''128'', js ''320''])" for pre c post
    using searchSingleSource_best [OF _ _ sc [symmetric], of s pre c post] by blast
  have no: "gdAvailable env
         \<and> gdSearch env s (n @ js '' '' @ a) = Inr songs
         \<and> (\<forall>y\<in>set songs. score n a y \<le> SIMILARITY_THRESHOLD (config env))
        \<longrightarrow> fst (searchSingleSource env s n (Some a)) = None" for songs
    using searchSingleSource_none [OF _ _ sc [symmetric], of s songs] by blast
  have sa: "scoreAll (toLowerCase env) n (Some a) songs = Inr (map (\<lambda>y. (y, score n a y)) songs)"
    unfolding scoreAll_Some assms(6) ..
  have c1: "calculateSongMatchScore (toLowerCase env) n (Some a) (gs_name cand) (gs_artist cand)
       = Inr (score n a cand)"
    by (simp add: calculateSongMatchScore_def Let_def assms(6))
  have c2: "calculateSongMatchScore lower n t cn (ArtistList xs)
       = calculateSongMatchScore lower n t cn (ArtistName (join (js ''/'') xs))"
    by (simp add: calculateSongMatchScore_def)
  have j: "join (js ''/'') [js ''A'', js ''B''] = js ''A/B''"
    by code_simp
  from b have b': "\<forall>pre c post.
         gdAvailable env
         \<and> gdSearch env s (n @ js '' '' @ a) = Inr (pre @ c # post)
         \<and> SIMILARITY_THRESHOLD (config env) < score n a c
         \<and> (\<forall>y\<in>set pre. score n a y < score n a c)
         \<and> (\<forall>y\<in>set post. score n a y \<le> score n a c)
        \<longrightarrow> fst (searchSingleSource env s n (Some a))
            = fst (tryQualities env s (gs_id c) [js ''128'', js ''320''])"
    by blast
  from no have no': "\<forall>songs.
         gdAvailable env
         \<and> gdSearch env s (n @ js '' '' @ a) = Inr songs
         \<and> (\<forall>y\<in>set songs. score n a y \<le> SIMILARITY_THRESHOLD (config env))
        \<longrightarrow> fst (searchSingleSource env s n (Some a)) = None"
    by blast
  from rs have rs': "\<forall>r. returned p = None
           \<and> fst (searchSongFromOtherSources env st nm fa src q) = Some r
           \<and> crossSourcePromise p \<noteq> None
        \<longrightarrow> fst (getSongUrl env st song q) = r"
    by blast
  from f l pr sw rs' g1 g2 t1 t2 i1 i2 fs b' no' sa c1 c2 j show ?thesis
    by (intro conjI)
qed

theorem C10_first_artist_witness:
  "song_artist exampleSong = ArtistList [js ''Taylor Swift'', js ''Ed Sheeran'']
   \<and> fst (tryGetFullVersionFromOtherSources exampleEnvSweep idle emptyState exampleSong (js ''320''))
     = Inr (Some \<lparr>r_url = js ''http://k/first.mp3'', r_br = js ''128'', r_size = Some 4096000,
                   r_source = Some (js ''kuwo'')\<rparr>)
   \<and> filter isCallSweep
        (snd (snd (tryGetFullVersionFromOtherSources exampleEnvSweep idle emptyState exampleSong
                     (js ''320''))))
     = [CallSweep (js ''Love Story'') (Some (js ''Taylor Swift'')) (js ''netease'') (js ''320'')]
   \<and> filter isCallSweep (snd (snd (getSongUrl exampleEnvSweep emptyState exampleSong (js ''320''))))
     = [CallSweep (js ''Love Story'') (Some (js ''Taylor Swift'')) (js ''netease'') (js ''320'')]
   \<and> fst (getSongUrl exampleEnvSweep emptyState exampleSong (js ''320''))
     = \<lparr>r_url = js ''http://k/first.mp3'', r_br = js ''128'', r_size = Some 4096000,
        r_source = Some (js ''kuwo'')\<rparr>
   \<and> gdSearch exampleEnvSweep (js ''kuwo'') (js ''Love Story Taylor Swift'')
     = Inr [\<lparr>gs_id = js ''both'', gs_name = js ''Love Story'',
             gs_artist = ArtistList [js ''Taylor Swift'', js ''Ed Sheeran'']\<rparr>,
            \<lparr>gs_id = js ''first'', gs_name = js ''Love Story'',
             gs_artist = ArtistList [js ''Taylor Swift'']\<rparr>]
   \<and> calculateSongMatchScore lowerLatin1 (js ''Love Story'') (Some (js ''Taylor Swift''))
        (js ''Love Story'') (ArtistList [js ''Taylor Swift'', js ''Ed Sheeran''])
     = Inr (8286623314361713 / 9007199254740992)
   \<and> calculateSongMatchScore lowerLatin1 (js ''Love Story'') (Some (js ''Taylor Swift''))
        (js ''Love Story'') (ArtistList [js ''Taylor Swift'']) = Inr 1
   \<and> calculateSongMatchScore lowerLatin1 (js ''abc'') (Some (js ''abc'')) (js ''bcd'')
        (ArtistName (js ''cbad''))
     = Inr (1351079888211149 / 2251799813685248)
   \<and> SIMILARITY_THRESHOLD (config exampleEnvSweep) < 1351079888211149 / 2251799813685248
   \<and> fst (searchSingleSource exampleEnvSweep (js ''kuwo'') (js ''Love Story'')
            (Some (js ''Taylor Swift'')))
     = Some \<lparr>r_url = js ''http://k/first.mp3'', r_br = js ''128'', r_size = Some 4096000,
             r_source = Some (js ''kuwo'')\<rparr>
   \<and> fst (searchSingleSource exampleEnvSweep (js ''kuwo'') (js ''Love Story'')
            (Some (js ''Taylor Swift/Ed Sheeran'')))
     = Some \<lparr>r_url = js ''http://k/both.mp3'', r_br = js ''128'', r_size = Some 4096000,
             r_source = Some (js ''kuwo'')\<rparr>"
proof -
  let ?q = "js ''320''"
  let ?n = "js ''Love Story''"
  let ?a = "js ''Taylor Swift''"
  let ?env = exampleEnvSweep
  let ?kf = "\<lparr>r_url = js ''http://k/first.mp3'', r_br = js ''128'', r_size = Some 4096000,
              r_source = Some (js ''kuwo'')\<rparr>"
  let ?both = "\<lparr>gs_id = js ''both'', gs_name = js ''Love Story'',
             gs_artist = ArtistList [js ''Taylor Swift'', js ''Ed Sheeran'']\<rparr>"
  let ?first = "\<lparr>gs_id = js ''first'', gs_name = js ''Love Story'',
             gs_artist = ArtistList [js ''Taylor Swift'']\<rparr>"
  let ?st1 = "emptyState\<lparr>crossSourceSearchInProgress :=
                crossSourceSearchInProgress emptyState @ [inFlightKey exampleSong]\<rparr>"
  let ?p = "getSongUrl_progress ?env emptyState exampleSong ?q"
  let ?score = "\<lambda>n t x.
           fadd (fmul (calculateSimilarity (toLowerCase ?env) n (gs_name x)) (round64 (3 / 5)))
                (fmul (calculateSimilarity (toLowerCase ?env) t
                         (case gs_artist x of ArtistList xs \<Rightarrow> join (js ''/'') xs
                          | ArtistName c \<Rightarrow> c)) (round64 (2 / 5)))"
  note T = C10_first_artist [where song = exampleSong and env = ?env and st = emptyState
      and q = ?q and a = ?a and rest = "[js ''Ed Sheeran'']" and n = ?n and s = "js ''kuwo''"
      and cand = ?both and lower = lowerLatin1,
      OF refl refl refl refl refl refl]
  have sg: "sourceOf exampleSong = js ''netease''"
    "song_name exampleSong = js ''Love Story''"
    "firstArtist (song_artist exampleSong) = Some (js ''Taylor Swift'')"
    by code_simp+
  have lw: "toLowerCase ?env = lowerLatin1" by (simp add: exampleEnvSweep_def exampleEnv_def)
  have ar: "song_artist exampleSong = ArtistList [js ''Taylor Swift'', js ''Ed Sheeran'']"
    by (simp add: exampleSong_def)
  have n0: "inFlightKey exampleSong \<notin> set (crossSourceSearchInProgress emptyState)"
    by (simp add: emptyState_def)
  have x1: "fst (searchSongFromOtherSources ?env ?st1 (song_name exampleSong)
                   (firstArtist (song_artist exampleSong)) (sourceOf exampleSong) ?q) = Some ?kf"
    by code_simp
  have x0: "fst (searchSongFromOtherSources ?env emptyState (song_name exampleSong)
                   (firstArtist (song_artist exampleSong)) (sourceOf exampleSong) ?q) = Some ?kf"
    by code_simp
  have rn: "returned ?p = None" by code_simp
  have pn: "crossSourcePromise ?p \<noteq> None" by code_simp
  note L = T [THEN conjunct2, THEN conjunct2, THEN conjunct2, THEN conjunct1, rule_format, OF n0]
  have a: "fst (tryGetFullVersionFromOtherSources ?env idle emptyState exampleSong ?q)
     = Inr (Some ?kf)"
    using L [THEN conjunct1] x1 by simp
  have b: "filter isCallSweep
        (snd (snd (tryGetFullVersionFromOtherSources ?env idle emptyState exampleSong ?q)))
     = [CallSweep ?n (Some ?a) (js ''netease'') ?q]"
    using L [THEN conjunct2, THEN conjunct1] by (simp only: sg)
  have c: "filter isCallSweep (snd (snd (getSongUrl ?env emptyState exampleSong ?q)))
     = [CallSweep ?n (Some ?a) (js ''netease'') ?q]"
    using T [THEN conjunct2, THEN conjunct2, THEN conjunct2, THEN conjunct2, THEN conjunct2, THEN
        conjunct1] pn by (simp only: sg if_False)
  have d: "fst (getSongUrl ?env emptyState exampleSong ?q) = ?kf"
    using T [THEN conjunct2, THEN conjunct2, THEN conjunct2, THEN conjunct2, THEN conjunct2, THEN
        conjunct2, THEN conjunct1, rule_format, of ?kf] rn x0 pn by blast
  have av: "gdAvailable ?env" by code_simp
  have se: "gdSearch ?env (js ''kuwo'') (js ''Love Story Taylor Swift'') = Inr [?both, ?first]"
    by code_simp
  have kw: "?n @ js '' '' @ ?a = js ''Love Story Taylor Swift''" by code_simp
  have s1: "?score ?n ?a ?both = 8286623314361713 / 9007199254740992" by code_simp
  have s2: "?score ?n ?a ?first = 1" by code_simp
  have th: "SIMILARITY_THRESHOLD (config ?env) = 5404319552844595 / 9007199254740992"
    by code_simp
  have m1: "calculateSongMatchScore lowerLatin1 ?n (Some ?a) ?n
              (ArtistList [js ''Taylor Swift'', js ''Ed Sheeran''])
            = Inr (8286623314361713 / 9007199254740992)"
    using T [THEN conjunct2, THEN conjunct2, THEN conjunct2, THEN conjunct2, THEN conjunct2, THEN
        conjunct2, THEN conjunct2, THEN conjunct2, THEN conjunct2, THEN conjunct2, THEN
        conjunct2, THEN conjunct2, THEN conjunct2, THEN conjunct2, THEN conjunct2, THEN
        conjunct2, THEN conjunct2, THEN conjunct1] s1 by (simp add: lw)
  have m2: "calculateSongMatchScore lowerLatin1 ?n (Some ?a) ?n (ArtistList [js ''Taylor Swift''])
            = Inr 1"
    by code_simp
  have m3: "calculateSongMatchScore lowerLatin1 (js ''abc'') (Some (js ''abc'')) (js ''bcd'')
              (ArtistName (js ''cbad''))
            = Inr (1351079888211149 / 2251799813685248)"
    by code_simp
  have m4: "SIMILARITY_THRESHOLD (config ?env) < 1351079888211149 / 2251799813685248"
    by code_simp
  have tq: "fst (tryQualities ?env (js ''kuwo'') (js ''first'') [js ''128'', js ''320'']) = Some ?kf"
    by code_simp
  have e: "fst (searchSingleSource ?env (js ''kuwo'') ?n (Some ?a)) = Some ?kf"
  proof -
    have h1: "SIMILARITY_THRESHOLD (config ?env) < ?score ?n ?a ?first" by code_simp
    have h2: "?score ?n ?a ?both < ?score ?n ?a ?first" by code_simp
    have h3: "\<forall>y\<in>set [?both]. ?score ?n ?a y < ?score ?n ?a ?first"
      using h2 by simp
    have h4: "\<forall>y\<in>set []. ?score ?n ?a y \<le> ?score ?n ?a ?first" by simp
    have h5: "gdSearch ?env (js ''kuwo'') (?n @ js '' '' @ ?a) = Inr ([?both] @ ?first # [])"
      unfolding kw using se by simp
    from av h5 h1 h3 h4 have h: "gdAvailable ?env
         \<and> gdSearch ?env (js ''kuwo'') (?n @ js '' '' @ ?a) = Inr ([?both] @ ?first # [])
         \<and> SIMILARITY_THRESHOLD (config ?env) < ?score ?n ?a ?first
         \<and> (\<forall>y\<in>set [?both]. ?score ?n ?a y < ?score ?n ?a ?first)
         \<and> (\<forall>y\<in>set []. ?score ?n ?a y \<le> ?score ?n ?a ?first)"
      by (intro conjI)
    from T [THEN conjunct2, THEN conjunct2, THEN conjunct2, THEN conjunct2, THEN conjunct2, THEN
        conjunct2, THEN conjunct2, THEN conjunct2, THEN conjunct2, THEN conjunct2, THEN
        conjunct2, THEN conjunct2, THEN conjunct2, THEN conjunct2, THEN conjunct1, rule_format,
        OF h] have
      "fst (searchSingleSource ?env (js ''kuwo'') ?n (Some ?a))
       = fst (tryQualities ?env (js ''kuwo'') (gs_id ?first) [js ''128'', js ''320''])" .
    then show ?thesis using tq by simp
  qed
  have g: "fst (searchSingleSource ?env (js ''kuwo'') ?n (Some (js ''Taylor Swift/Ed Sheeran'')))
     = Some \<lparr>r_url = js ''http://k/both.mp3'', r_br = js ''128'', r_size = Some 4096000,
             r_source = Some (js ''kuwo'')\<rparr>"
    by code_simp
  from ar a b c d se m1 m2 m3 m4 e g show ?thesis by (intro conjI)
qed
section \<open>Circuit breaker\<close>

lemma recordFailure_fields:
  "failureThreshold (recordFailure t cb) = failureThreshold cb
   \<and> coolDown (recordFailure t cb) = coolDown cb
   \<and> failureCount (recordFailure t cb) = failureCount cb + 1
   \<and> lastFailureTime (recordFailure t cb) = t"
  by (simp add: recordFailure_def Let_def split: CircuitState.splits)

lemma recordFailures_closed:
  assumes "circuitState cb = CLOSED"
    and "failureCount cb + length ts < failureThreshold cb"
  shows "circuitState (recordFailures ts cb) = CLOSED
    \<and> failureCount (recordFailures ts cb) = failureCount cb + length ts
    \<and> failureThreshold (recordFailures ts cb) = failureThreshold cb
    \<and> coolDown (recordFailures ts cb) = coolDown cb"
  using assms
proof (induction ts arbitrary: cb)
  case Nil
  then show ?case by (simp add: recordFailures_def)
next
  case (Cons t ts)
  have c: "circuitState (recordFailure t cb) = CLOSED"
    using Cons.prems by (simp add: recordFailure_def Let_def)
  have "failureCount (recordFailure t cb) + length ts < failureThreshold (recordFailure t cb)"
    using Cons.prems by (simp add: recordFailure_fields)
  from Cons.IH [OF c this] show ?case
    by (simp add: recordFailures_def recordFailure_fields)
qed

lemma recordFailures_snoc:
  "recordFailures (ts @ [t]) cb = recordFailure t (recordFailures ts cb)"
  by (simp add: recordFailures_def)

lemma recordFailures_open:
  assumes "circuitState cb = CLOSED"
    and "failureCount cb = 0"
    and "0 < failureThreshold cb"
    and "length ts = failureThreshold cb"
  shows "circuitState (recordFailures ts cb) = OPEN
    \<and> lastFailureTime (recordFailures ts cb) = last ts
    \<and> coolDown (recordFailures ts cb) = coolDown cb"
proof -
  from assms(3,4) have "ts \<noteq> []" by auto
  then obtain us t where ts: "ts = us @ [t]" by (metis rev_exhaust)
  with assms have "failureCount cb + length us < failureThreshold cb" by simp
  from recordFailures_closed [OF assms(1) this]
  have m: "circuitState (recordFailures us cb) = CLOSED"
    "failureCount (recordFailures us cb) = length us"
    "failureThreshold (recordFailures us cb) = failureThreshold cb"
    "coolDown (recordFailures us cb) = coolDown cb"
    using assms(2) by simp_all
  have "length us + 1 = failureThreshold cb" using ts assms(4) by simp
  with m show ?thesis
    unfolding ts recordFailures_snoc
    by (simp add: recordFailure_def Let_def)
qed

text \<open>
  Claim C5, on the breaker modelled from the specification. In CLOSED \<open>canExecute\<close> is
  true. From CLOSED with no failure counted, fewer failures in a row than the threshold
  leave the circuit CLOSED, and as many as the threshold make it OPEN, where
  \<open>canExecute\<close> is false as long as the cool-down has not elapsed since the last
  failure. Once it has elapsed, \<open>canExecute\<close> is true once and the circuit is
  HALF_OPEN, where \<open>canExecute\<close> is false at any time: one trial call. In HALF_OPEN a
  success makes the circuit CLOSED with the failure counter at zero, and a failure makes
  it OPEN with the cool-down counted from that failure.
\<close>

theorem C5_circuit_breaker:
  "(circuitState cb = CLOSED \<longrightarrow> canExecute now cb = (True, cb))
   \<and> (circuitState cb = CLOSED \<and> failureCount cb = 0 \<and> length ts < failureThreshold cb
        \<longrightarrow> getState (recordFailures ts cb) = CLOSED)
   \<and> (circuitState cb = CLOSED \<and> failureCount cb = 0 \<and> 0 < failureThreshold cb
        \<and> length ts = failureThreshold cb
        \<longrightarrow> getState (recordFailures ts cb) = OPEN
          \<and> (now - last ts < coolDown cb \<longrightarrow>
                canExecute now (recordFailures ts cb) = (False, recordFailures ts cb)))
   \<and> (circuitState cb = OPEN \<and> now - lastFailureTime cb < coolDown cb
        \<longrightarrow> canExecute now cb = (False, cb))
   \<and> (circuitState cb = OPEN \<and> now - lastFailureTime cb \<ge> coolDown cb
        \<longrightarrow> fst (canExecute now cb) \<and> getState (snd (canExecute now cb)) = HALF_OPEN
          \<and> \<not> fst (canExecute later (snd (canExecute now cb)))
          \<and> snd (canExecute later (snd (canExecute now cb))) = snd (canExecute now cb))
   \<and> (circuitState cb = HALF_OPEN
        \<longrightarrow> getState (recordSuccess cb) = CLOSED \<and> failureCount (recordSuccess cb) = 0)
   \<and> (circuitState cb = HALF_OPEN
        \<longrightarrow> getState (recordFailure now cb) = OPEN
          \<and> lastFailureTime (recordFailure now cb) = now
          \<and> (later - now < coolDown cb \<longrightarrow> \<not> fst (canExecute later (recordFailure now cb))))"
proof -
  have a: "circuitState cb = CLOSED \<longrightarrow> canExecute now cb = (True, cb)"
    by (simp add: canExecute_def)
  have b: "circuitState cb = CLOSED \<and> failureCount cb = 0 \<and> length ts < failureThreshold cb
        \<longrightarrow> getState (recordFailures ts cb) = CLOSED"
    using recordFailures_closed [of cb ts] by (simp add: getState_def)
  have c: "circuitState cb = CLOSED \<and> failureCount cb = 0 \<and> 0 < failureThreshold cb
        \<and> length ts = failureThreshold cb
        \<longrightarrow> getState (recordFailures ts cb) = OPEN
          \<and> (now - last ts < coolDown cb \<longrightarrow>
                canExecute now (recordFailures ts cb) = (False, recordFailures ts cb))"
    using recordFailures_open [of cb ts] by (simp add: getState_def canExecute_def)
  have d: "circuitState cb = OPEN \<and> now - lastFailureTime cb < coolDown cb
        \<longrightarrow> canExecute now cb = (False, cb)"
    by (simp add: canExecute_def)
  have e: "circuitState cb = OPEN \<and> now - lastFailureTime cb \<ge> coolDown cb
        \<longrightarrow> fst (canExecute now cb) \<and> getState (snd (canExecute now cb)) = HALF_OPEN
          \<and> \<not> fst (canExecute later (snd (canExecute now cb)))
          \<and> snd (canExecute later (snd (canExecute now cb))) = snd (canExecute now cb)"
    by (simp add: canExecute_def getState_def)
  have f: "circuitState cb = HALF_OPEN
        \<longrightarrow> getState (recordSuccess cb) = CLOSED \<and> failureCount (recordSuccess cb) = 0"
    by (simp add: recordSuccess_def getState_def)
  have g: "circuitState cb = HALF_OPEN
        \<longrightarrow> getState (recordFailure now cb) = OPEN
          \<and> lastFailureTime (recordFailure now cb) = now
          \<and> (later - now < coolDown cb \<longrightarrow> \<not> fst (canExecute later (recordFailure now cb)))"
    by (simp add: recordFailure_def getState_def canExecute_def Let_def)
  from a b c d e f g show ?thesis by blast
qed

theorem C5_circuit_breaker_witness:
  "getState (recordFailures [100, 200, 300]
      \<lparr>circuitState = CLOSED, failureCount = 0, lastFailureTime = 0, failureThreshold = 3,
       coolDown = 30000\<rparr>) = OPEN
   \<and> canExecute 20000 (recordFailures [100, 200, 300]
      \<lparr>circuitState = CLOSED, failureCount = 0, lastFailureTime = 0, failureThreshold = 3,
       coolDown = 30000\<rparr>)
     = (False, recordFailures [100, 200, 300]
      \<lparr>circuitState = CLOSED, failureCount = 0, lastFailureTime = 0, failureThreshold = 3,
       coolDown = 30000\<rparr>)
   \<and> fst (canExecute 40000
      \<lparr>circuitState = OPEN, failureCount = 3, lastFailureTime = 300, failureThreshold = 3,
       coolDown = 30000\<rparr>)
   \<and> \<not> fst (canExecute 40001 (snd (canExecute 40000
      \<lparr>circuitState = OPEN, failureCount = 3, lastFailureTime = 300, failureThreshold = 3,
       coolDown = 30000\<rparr>)))
   \<and> getState (recordSuccess
      \<lparr>circuitState = HALF_OPEN, failureCount = 3, lastFailureTime = 300, failureThreshold = 3,
       coolDown = 30000\<rparr>) = CLOSED
   \<and> getState (recordFailure 40002
      \<lparr>circuitState = HALF_OPEN, failureCount = 3, lastFailureTime = 300, failureThreshold = 3,
       coolDown = 30000\<rparr>) = OPEN"
proof -
  let ?c0 = "\<lparr>circuitState = CLOSED, failureCount = 0, lastFailureTime = 0, failureThreshold = 3,
       coolDown = 30000\<rparr>"
  let ?o = "\<lparr>circuitState = OPEN, failureCount = 3, lastFailureTime = 300, failureThreshold = 3,
       coolDown = 30000\<rparr>"
  let ?h = "\<lparr>circuitState = HALF_OPEN, failureCount = 3, lastFailureTime = 300, failureThreshold = 3,
       coolDown = 30000\<rparr>"
  have h0: "circuitState ?c0 = CLOSED \<and> failureCount ?c0 = 0 \<and> 0 < failureThreshold ?c0
        \<and> length [100, 200, 300 :: int] = failureThreshold ?c0" by simp
  have h1: "(20000 :: int) - last [100, 200, 300] < coolDown ?c0" by simp
  have ho: "circuitState ?o = OPEN \<and> 40000 - lastFailureTime ?o \<ge> coolDown ?o" by simp
  have hh: "circuitState ?h = HALF_OPEN" by simp
  have a: "getState (recordFailures [100, 200, 300] ?c0) = OPEN
     \<and> canExecute 20000 (recordFailures [100, 200, 300] ?c0)
        = (False, recordFailures [100, 200, 300] ?c0)"
    using h0 h1 C5_circuit_breaker [of ?c0 20000 "[100, 200, 300]" 0] by blast
  have b: "fst (canExecute 40000 ?o) \<and> \<not> fst (canExecute 40001 (snd (canExecute 40000 ?o)))"
    using ho C5_circuit_breaker [of ?o 40000 "[]" 40001] by blast
  have c: "getState (recordSuccess ?h) = CLOSED \<and> getState (recordFailure 40002 ?h) = OPEN"
    using hh C5_circuit_breaker [of ?h 40002 "[]" 0] by blast
  from a b c show ?thesis by blast
qed

end
